theory Spec2Isabelle
  imports Main "HOL-Library.Word"
begin

section \<open>The heap allocator of jmem-heap.c\<close>

text \<open>
  A shallow embedding of \<^verbatim>\<open>src/deps/jerry/jerry-core/jmem/jmem-heap.c\<close> for the two
  backends that own a free list: the static heap and the segmented heap
  (\<^verbatim>\<open>JMEM_SEGMENTED_HEAP\<close>). The build with \<^verbatim>\<open>JMEM_STATS\<close> is modelled, so the
  statistics macros are calls. The counters of the dynamic-emulation backend and the
  profiling hooks are not part of the model.

  \<^verbatim>\<open>uint32_t\<close> and \<^verbatim>\<open>size_t\<close> are 32-bit words (the codec casts pointers to
  \<^verbatim>\<open>uint32_t\<close>), \<^verbatim>\<open>int\<close> is a 32-bit word read as two's complement.
\<close>

type_synonym uint32_t = "32 word"
type_synonym size_t = "32 word"

subsection \<open>Configuration\<close>

text \<open>
  The macros and layout facts that the file takes from headers outside \<^verbatim>\<open>src/\<close> are
  fields of a configuration. \<open>block_after_first b\<close> tells whether the block at offset
  \<open>b\<close> compares greater than \<^verbatim>\<open>&first\<close> (by address on the static heap, by compressed
  offset on the segmented heap). \<open>area_address\<close> is the address of \<^verbatim>\<open>area[0]\<close>, pointers
  being 32 bits wide: on the static heap two pointers into the area compare as the
  addresses \<open>area_address + offset\<close>, which wrap as \<^verbatim>\<open>uint32_t\<close> does.
\<close>

record config =
  JMEM_ALIGNMENT :: uint32_t
  JMEM_HEAP_END_OF_LIST :: uint32_t
  CONFIG_MEM_HEAP_DESIRED_LIMIT :: size_t
  JMEM_HEAP_SIZE :: size_t
  JMEM_HEAP_AREA_SIZE :: uint32_t
  SEG_SEGMENT_SIZE :: uint32_t
  JMEM_SEGMENTED_HEAP :: bool
  JMEM_GC_BEFORE_EACH_ALLOC :: bool
  JMEM_LAZY_GC :: bool
  JERRY_NDEBUG :: bool
  block_after_first :: "uint32_t \<Rightarrow> bool"
  area_address :: uint32_t

subsection \<open>Data\<close>

text \<open>
  \<^verbatim>\<open>jmem_heap_free_t\<close>: the header of a free region. A pointer to a header is either
  \<^verbatim>\<open>&first\<close> or \<^verbatim>\<open>area + o\<close>; \<^verbatim>\<open>NULL\<close> is \<open>None\<close> of \<open>pointer option\<close>. The area holds
  one header cell per offset: headers at different offsets are different cells, which
  is what the code relies on for offsets that are multiples of the alignment.
\<close>

record jmem_heap_free_t =
  next_offset :: uint32_t
  size_f :: uint32_t

datatype pointer = FIRST | AREA uint32_t

record jmem_segment_t =
  occupied_size :: uint32_t

record jmem_heap_stats_t =
  allocated_bytes :: size_t
  peak_allocated_bytes :: size_t
  waste_bytes :: size_t
  peak_waste_bytes :: size_t
  alloc_count :: size_t
  free_count :: size_t
  skip_count :: size_t
  nonskip_count :: size_t
  alloc_iter_count :: size_t
  free_iter_count :: size_t

record heap_state =
  first :: jmem_heap_free_t
  area :: "uint32_t \<Rightarrow> jmem_heap_free_t"
  segments :: "jmem_segment_t list"
  jmem_heap_list_skip_p :: pointer
  jmem_heap_blocks_size :: size_t
  jmem_heap_allocated_blocks_count :: size_t
  jmem_heap_limit :: size_t
  jmem_heap_stats :: jmem_heap_stats_t

datatype jmem_free_unused_memory_severity_t =
  JMEM_FREE_UNUSED_MEMORY_SEVERITY_LOW | JMEM_FREE_UNUSED_MEMORY_SEVERITY_HIGH

datatype fatal = ERR_OUT_OF_MEMORY | ASSERTION_FAILED

text \<open>
  A call returns a value or ends the process (\<^verbatim>\<open>jerry_fatal\<close>, a failed
  \<^verbatim>\<open>JERRY_ASSERT\<close>). A call that does neither (a loop that runs forever, an index
  outside \<^verbatim>\<open>segments[]\<close>) has no outcome: \<open>None\<close>.
\<close>

datatype 'a outcome = Returns 'a | Terminates fatal

definition obind :: "'a outcome option \<Rightarrow> ('a \<Rightarrow> 'b outcome option) \<Rightarrow> 'b outcome option" where
  "obind m f = (case m of None \<Rightarrow> None
                | Some (Terminates e) \<Rightarrow> Some (Terminates e)
                | Some (Returns x) \<Rightarrow> f x)"

subsection \<open>Reading and writing headers\<close>

definition rd :: "heap_state \<Rightarrow> pointer \<Rightarrow> jmem_heap_free_t" where
  "rd s p = (case p of FIRST \<Rightarrow> first s | AREA off \<Rightarrow> area s off)"

definition wr :: "pointer \<Rightarrow> jmem_heap_free_t \<Rightarrow> heap_state \<Rightarrow> heap_state" where
  "wr p h s = (case p of FIRST \<Rightarrow> s\<lparr>first := h\<rparr>
               | AREA off \<Rightarrow> s\<lparr>area := (area s)(off := h)\<rparr>)"

definition set_size :: "pointer \<Rightarrow> uint32_t \<Rightarrow> heap_state \<Rightarrow> heap_state" where
  "set_size p v s = wr p ((rd s p)\<lparr>size_f := v\<rparr>) s"

definition set_next_offset :: "pointer \<Rightarrow> uint32_t \<Rightarrow> heap_state \<Rightarrow> heap_state" where
  "set_next_offset p v s = wr p ((rd s p)\<lparr>next_offset := v\<rparr>) s"

text \<open>The codec on area pointers: \<^verbatim>\<open>area + cp\<close> and back.\<close>

definition JMEM_DECOMPRESS_POINTER_INTERNAL :: "uint32_t \<Rightarrow> pointer" where
  "JMEM_DECOMPRESS_POINTER_INTERNAL cp = AREA cp"

text \<open>\<^verbatim>\<open>(uint8_t *)p + n\<close>. A pointer made from \<^verbatim>\<open>&first\<close> stays outside the area.\<close>

datatype address = FIRST_PLUS uint32_t | AREA_PLUS uint32_t

definition addr_of :: "pointer \<Rightarrow> address" where
  "addr_of p = (case p of FIRST \<Rightarrow> FIRST_PLUS 0 | AREA off \<Rightarrow> AREA_PLUS off)"

definition jmem_heap_get_region_end :: "heap_state \<Rightarrow> pointer \<Rightarrow> address" where
  "jmem_heap_get_region_end s curr_p =
     (case curr_p of FIRST \<Rightarrow> FIRST_PLUS (size_f (rd s curr_p))
      | AREA off \<Rightarrow> AREA_PLUS (off + size_f (rd s curr_p)))"

subsection \<open>Statistics\<close>

definition aligned :: "config \<Rightarrow> size_t \<Rightarrow> size_t" where
  "aligned cfg sz = (sz + JMEM_ALIGNMENT cfg - 1) div JMEM_ALIGNMENT cfg * JMEM_ALIGNMENT cfg"

definition upd_stats :: "(jmem_heap_stats_t \<Rightarrow> jmem_heap_stats_t) \<Rightarrow> heap_state \<Rightarrow> heap_state" where
  "upd_stats f s = s\<lparr>jmem_heap_stats := f (jmem_heap_stats s)\<rparr>"

definition jmem_heap_stat_alloc :: "config \<Rightarrow> size_t \<Rightarrow> heap_state \<Rightarrow> heap_state" where
  "jmem_heap_stat_alloc cfg sz s =
     (let aligned_size = aligned cfg sz;
          waste = aligned_size - sz;
          st1 = (jmem_heap_stats s)\<lparr>allocated_bytes := allocated_bytes (jmem_heap_stats s) + aligned_size\<rparr>;
          st2 = st1\<lparr>waste_bytes := waste_bytes st1 + waste\<rparr>;
          st3 = st2\<lparr>alloc_count := alloc_count st2 + 1\<rparr>;
          st4 = (if allocated_bytes st3 > peak_allocated_bytes st3
                 then st3\<lparr>peak_allocated_bytes := allocated_bytes st3\<rparr> else st3);
          st5 = (if waste_bytes st4 > peak_waste_bytes st4
                 then st4\<lparr>peak_waste_bytes := waste_bytes st4\<rparr> else st4)
      in s\<lparr>jmem_heap_stats := st5\<rparr>)"

definition jmem_heap_stat_free :: "config \<Rightarrow> size_t \<Rightarrow> heap_state \<Rightarrow> heap_state" where
  "jmem_heap_stat_free cfg sz s =
     (let aligned_size = aligned cfg sz;
          waste = aligned_size - sz;
          st1 = (jmem_heap_stats s)\<lparr>free_count := free_count (jmem_heap_stats s) + 1\<rparr>;
          st2 = st1\<lparr>allocated_bytes := allocated_bytes st1 - aligned_size\<rparr>;
          st3 = st2\<lparr>waste_bytes := waste_bytes st2 - waste\<rparr>
      in s\<lparr>jmem_heap_stats := st3\<rparr>)"

definition jmem_heap_stat_skip :: "heap_state \<Rightarrow> heap_state" where
  "jmem_heap_stat_skip = upd_stats (\<lambda>st. st\<lparr>skip_count := skip_count st + 1\<rparr>)"

definition jmem_heap_stat_nonskip :: "heap_state \<Rightarrow> heap_state" where
  "jmem_heap_stat_nonskip = upd_stats (\<lambda>st. st\<lparr>nonskip_count := nonskip_count st + 1\<rparr>)"

definition jmem_heap_stat_alloc_iter :: "heap_state \<Rightarrow> heap_state" where
  "jmem_heap_stat_alloc_iter = upd_stats (\<lambda>st. st\<lparr>alloc_iter_count := alloc_iter_count st + 1\<rparr>)"

definition jmem_heap_stat_free_iter :: "heap_state \<Rightarrow> heap_state" where
  "jmem_heap_stat_free_iter = upd_stats (\<lambda>st. st\<lparr>free_iter_count := free_iter_count st + 1\<rparr>)"

subsection \<open>Segment occupancy\<close>

text \<open>
  The walk over the segments that a block touches. The allocation path and the free
  path hold the same loop, one with \<^verbatim>\<open>+=\<close> and one with \<^verbatim>\<open>-=\<close>: \<open>f\<close> is that operator.
  \<open>size_to_alloc\<close> is the \<^verbatim>\<open>int\<close> counter, compared signed.
\<close>

definition upd_segment :: "(uint32_t \<Rightarrow> uint32_t \<Rightarrow> uint32_t) \<Rightarrow> uint32_t \<Rightarrow> uint32_t \<Rightarrow>
    jmem_segment_t list \<Rightarrow> jmem_segment_t list option" where
  "upd_segment f sidx n segs =
     (if unat sidx < length segs
      then Some (segs[unat sidx := (segs ! unat sidx)\<lparr>occupied_size := f (occupied_size (segs ! unat sidx)) n\<rparr>])
      else None)"

partial_function (option) segment_walk ::
  "config \<Rightarrow> (uint32_t \<Rightarrow> uint32_t \<Rightarrow> uint32_t) \<Rightarrow> uint32_t \<Rightarrow> uint32_t \<Rightarrow> uint32_t \<Rightarrow>
   jmem_segment_t list \<Rightarrow> jmem_segment_t list option" where
  "segment_walk cfg f block_end_offset size_to_alloc fragment_start_offset segs =
     (if 0 <s size_to_alloc then
        (let sidx = fragment_start_offset div SEG_SEGMENT_SIZE cfg;
             segment_end_offset = (sidx + 1) * SEG_SEGMENT_SIZE cfg - JMEM_ALIGNMENT cfg;
             fragment_end_offset = (if block_end_offset < segment_end_offset
                                    then block_end_offset else segment_end_offset);
             size_to_alloc_in_segment = fragment_end_offset - fragment_start_offset + JMEM_ALIGNMENT cfg
         in case upd_segment f sidx size_to_alloc_in_segment segs of
              None \<Rightarrow> None
            | Some segs' \<Rightarrow>
                segment_walk cfg f block_end_offset (size_to_alloc - size_to_alloc_in_segment)
                  (fragment_end_offset + JMEM_ALIGNMENT cfg) segs')
      else Some segs)"

declare segment_walk.simps [code]

definition segment_occupancy ::
  "config \<Rightarrow> (uint32_t \<Rightarrow> uint32_t \<Rightarrow> uint32_t) \<Rightarrow> uint32_t \<Rightarrow> size_t \<Rightarrow> heap_state \<Rightarrow> heap_state option" where
  "segment_occupancy cfg f block_start_offset sz s =
     (if JMEM_SEGMENTED_HEAP cfg then
        (let block_end_offset = block_start_offset + sz - JMEM_ALIGNMENT cfg
         in map_option (\<lambda>segs. s\<lparr>segments := segs\<rparr>)
              (segment_walk cfg f block_end_offset sz block_start_offset (segments s)))
      else Some s)"

subsection \<open>Allocation\<close>

text \<open>The fast path's update of the one segment that holds the block.\<close>

definition fast_occupancy :: "config \<Rightarrow> uint32_t \<Rightarrow> heap_state \<Rightarrow> heap_state option" where
  "fast_occupancy cfg block_offset s =
     (if JMEM_SEGMENTED_HEAP cfg
      then map_option (\<lambda>segs. s\<lparr>segments := segs\<rparr>)
             (upd_segment (+) (block_offset div SEG_SEGMENT_SIZE cfg) (JMEM_ALIGNMENT cfg) (segments s))
      else Some s)"

definition jmem_heap_alloc_block_internal_fast ::
  "config \<Rightarrow> bool \<Rightarrow> heap_state \<Rightarrow> (pointer option \<times> heap_state) option" where
  "jmem_heap_alloc_block_internal_fast cfg is_small_block s =
     (let data_space_p = JMEM_DECOMPRESS_POINTER_INTERNAL (next_offset (first s));
          s1 = s\<lparr>jmem_heap_blocks_size := jmem_heap_blocks_size s + JMEM_ALIGNMENT cfg\<rparr>;
          s2 = s1\<lparr>jmem_heap_allocated_blocks_count := jmem_heap_allocated_blocks_count s1 + 1\<rparr>;
          block_offset = next_offset (first s2)
      in case fast_occupancy cfg block_offset s2 of
           None \<Rightarrow> None
         | Some s3 \<Rightarrow>
            (let s4 = jmem_heap_stat_alloc_iter s3;
                 s7 = (if size_f (rd s4 data_space_p) = JMEM_ALIGNMENT cfg
                       then set_next_offset FIRST (next_offset (rd s4 data_space_p)) s4
                       else (let remaining_offset = block_offset + JMEM_ALIGNMENT cfg;
                                 remaining_p = JMEM_DECOMPRESS_POINTER_INTERNAL remaining_offset;
                                 s5 = set_size remaining_p (size_f (rd s4 data_space_p) - JMEM_ALIGNMENT cfg) s4;
                                 s6 = set_next_offset remaining_p (next_offset (rd s5 data_space_p)) s5
                             in set_next_offset FIRST remaining_offset s6));
                 s8 = (if data_space_p = jmem_heap_list_skip_p s7
                       then s7\<lparr>jmem_heap_list_skip_p :=
                                 JMEM_DECOMPRESS_POINTER_INTERNAL (next_offset (first s7))\<rparr>
                       else s7)
             in Some (Some data_space_p, s8)))"

text \<open>The body of the slow path's \<^verbatim>\<open>if (current_p->size >= required_size)\<close>.\<close>

definition slow_take ::
  "config \<Rightarrow> size_t \<Rightarrow> uint32_t \<Rightarrow> pointer \<Rightarrow> uint32_t \<Rightarrow> heap_state \<Rightarrow> heap_state option" where
  "slow_take cfg required_size current_offset prev_p next_off s =
     (let current_p = JMEM_DECOMPRESS_POINTER_INTERNAL current_offset;
          s1 = s\<lparr>jmem_heap_blocks_size := jmem_heap_blocks_size s + required_size\<rparr>;
          s2 = s1\<lparr>jmem_heap_allocated_blocks_count := jmem_heap_allocated_blocks_count s1 + 1\<rparr>
      in case segment_occupancy cfg (+) current_offset required_size s2 of
           None \<Rightarrow> None
         | Some s3 \<Rightarrow>
            (let s6 = (if size_f (rd s3 current_p) > required_size
                       then (let remaining_p = AREA (current_offset + required_size);
                                 s4 = set_size remaining_p (size_f (rd s3 current_p) - required_size) s3;
                                 s5 = set_next_offset remaining_p next_off s4
                             in set_next_offset prev_p (current_offset + required_size) s5)
                       else set_next_offset prev_p next_off s3)
             in Some (s6\<lparr>jmem_heap_list_skip_p := prev_p\<rparr>)))"

partial_function (option) slow_loop ::
  "config \<Rightarrow> size_t \<Rightarrow> uint32_t \<Rightarrow> pointer \<Rightarrow> heap_state \<Rightarrow> (pointer option \<times> heap_state) option" where
  "slow_loop cfg required_size current_offset prev_p s =
     (if current_offset \<noteq> JMEM_HEAP_END_OF_LIST cfg then
        (let current_p = JMEM_DECOMPRESS_POINTER_INTERNAL current_offset;
             s1 = jmem_heap_stat_alloc_iter s;
             next_off = next_offset (rd s1 current_p)
         in if size_f (rd s1 current_p) \<ge> required_size
            then map_option (\<lambda>s'. (Some current_p, s'))
                   (slow_take cfg required_size current_offset prev_p next_off s1)
            else slow_loop cfg required_size next_off current_p s1)
      else Some (None, s))"

declare slow_loop.simps [code]

definition jmem_heap_alloc_block_internal_slow ::
  "config \<Rightarrow> size_t \<Rightarrow> bool \<Rightarrow> heap_state \<Rightarrow> (pointer option \<times> heap_state) option" where
  "jmem_heap_alloc_block_internal_slow cfg required_size is_small_block s =
     slow_loop cfg required_size (next_offset (first s)) FIRST s"

partial_function (option) raise_heap_limit :: "config \<Rightarrow> heap_state \<Rightarrow> heap_state option" where
  "raise_heap_limit cfg s =
     (if jmem_heap_blocks_size s \<ge> jmem_heap_limit s
      then raise_heap_limit cfg (s\<lparr>jmem_heap_limit := jmem_heap_limit s + CONFIG_MEM_HEAP_DESIRED_LIMIT cfg\<rparr>)
      else Some s)"

declare raise_heap_limit.simps [code]

definition jmem_heap_alloc_block_internal ::
  "config \<Rightarrow> size_t \<Rightarrow> bool \<Rightarrow> heap_state \<Rightarrow> (pointer option \<times> heap_state) option" where
  "jmem_heap_alloc_block_internal cfg sz is_small_block s =
     (let required_size = aligned cfg sz
      in case (if required_size = JMEM_ALIGNMENT cfg \<and> next_offset (first s) \<noteq> JMEM_HEAP_END_OF_LIST cfg
               then jmem_heap_alloc_block_internal_fast cfg is_small_block s
               else jmem_heap_alloc_block_internal_slow cfg required_size is_small_block s) of
           None \<Rightarrow> None
         | Some (data_space_p, s1) \<Rightarrow>
            (case raise_heap_limit cfg s1 of
               None \<Rightarrow> None
             | Some s2 \<Rightarrow>
                (if data_space_p = None then Some (None, s2)
                 else Some (data_space_p, jmem_heap_stat_alloc cfg sz s2))))"

subsection \<open>Free\<close>

text \<open>
  The block to free is a pointer into the area, given by its offset \<open>ptr\<close>
  (\<^verbatim>\<open>area + ptr\<close>). On the static heap \<^verbatim>\<open>jmem_is_heap_pointer\<close> and the test of the
  skip pointer compare addresses.
\<close>

definition jmem_is_heap_pointer :: "config \<Rightarrow> uint32_t \<Rightarrow> bool" where
  "jmem_is_heap_pointer cfg ptr =
     (if JMEM_SEGMENTED_HEAP cfg then True
      else area_address cfg + ptr \<ge> area_address cfg \<and>
           area_address cfg + ptr \<le> area_address cfg + JMEM_HEAP_AREA_SIZE cfg)"

partial_function (option) free_walk ::
  "uint32_t \<Rightarrow> pointer \<Rightarrow> heap_state \<Rightarrow> (pointer \<times> heap_state) option" where
  "free_walk block_offset prev_p s =
     (if next_offset (rd s prev_p) < block_offset
      then free_walk block_offset (JMEM_DECOMPRESS_POINTER_INTERNAL (next_offset (rd s prev_p)))
             (jmem_heap_stat_free_iter s)
      else Some (prev_p, s))"

declare free_walk.simps [code]

text \<open>The two merge decisions and the skip pointer update.\<close>

definition free_link :: "uint32_t \<Rightarrow> size_t \<Rightarrow> pointer \<Rightarrow> heap_state \<Rightarrow> heap_state" where
  "free_link block_offset aligned_size prev_p s =
     (let next_cp = next_offset (rd s prev_p);
          next_p = JMEM_DECOMPRESS_POINTER_INTERNAL next_cp;
          merge_prev = (jmem_heap_get_region_end s prev_p = AREA_PLUS block_offset);
          block_p = (if merge_prev then prev_p else AREA block_offset);
          s1 = (if merge_prev
                then set_size prev_p (size_f (rd s prev_p) + aligned_size) s
                else set_next_offset prev_p block_offset (set_size (AREA block_offset) aligned_size s));
          s3 = (if jmem_heap_get_region_end s1 block_p = addr_of next_p
                then (let s2 = set_size block_p (size_f (rd s1 block_p) + size_f (rd s1 next_p)) s1
                      in set_next_offset block_p (next_offset (rd s2 next_p)) s2)
                else set_next_offset block_p next_cp s1)
      in s3\<lparr>jmem_heap_list_skip_p := prev_p\<rparr>)"

partial_function (option) lower_heap_limit :: "config \<Rightarrow> heap_state \<Rightarrow> heap_state option" where
  "lower_heap_limit cfg s =
     (if jmem_heap_blocks_size s + CONFIG_MEM_HEAP_DESIRED_LIMIT cfg \<le> jmem_heap_limit s
      then lower_heap_limit cfg (s\<lparr>jmem_heap_limit := jmem_heap_limit s - CONFIG_MEM_HEAP_DESIRED_LIMIT cfg\<rparr>)
      else Some s)"

declare lower_heap_limit.simps [code]

definition free_body :: "config \<Rightarrow> uint32_t \<Rightarrow> size_t \<Rightarrow> heap_state \<Rightarrow> heap_state option" where
  "free_body cfg ptr sz s =
     (let s1 = jmem_heap_stat_free_iter s;
          block_offset = ptr;
          is_skip_ok = (case jmem_heap_list_skip_p s1 of
                          AREA skip_offset \<Rightarrow>
                            (if JMEM_SEGMENTED_HEAP cfg then block_offset > skip_offset
                             else area_address cfg + block_offset > area_address cfg + skip_offset)
                        | FIRST \<Rightarrow> block_after_first cfg block_offset)
      in case (if is_skip_ok then free_walk block_offset (jmem_heap_list_skip_p s1) (jmem_heap_stat_skip s1)
               else free_walk block_offset FIRST (jmem_heap_stat_nonskip s1)) of
           None \<Rightarrow> None
         | Some (prev_p, s2) \<Rightarrow>
            (let aligned_size = aligned cfg sz;
                 s3 = free_link block_offset aligned_size prev_p s2
             in case segment_occupancy cfg (-) block_offset aligned_size s3 of
                  None \<Rightarrow> None
                | Some s4 \<Rightarrow>
                   (let s5 = s4\<lparr>jmem_heap_blocks_size := jmem_heap_blocks_size s4 - aligned_size\<rparr>;
                        s6 = s5\<lparr>jmem_heap_allocated_blocks_count := jmem_heap_allocated_blocks_count s5 - 1\<rparr>
                    in map_option (jmem_heap_stat_free cfg sz) (lower_heap_limit cfg s6))))"

definition jmem_heap_free_block_internal ::
  "config \<Rightarrow> uint32_t \<Rightarrow> size_t \<Rightarrow> bool \<Rightarrow> heap_state \<Rightarrow> heap_state outcome option" where
  "jmem_heap_free_block_internal cfg ptr sz is_small_object s =
     (if \<not> JERRY_NDEBUG cfg \<and>
         \<not> (jmem_is_heap_pointer cfg ptr \<and> sz > 0 \<and> jmem_heap_limit s \<ge> jmem_heap_blocks_size s)
      then Some (Terminates ASSERTION_FAILED)
      else map_option Returns (free_body cfg ptr sz s))"

definition jmem_heap_free_block :: "config \<Rightarrow> uint32_t \<Rightarrow> size_t \<Rightarrow> heap_state \<Rightarrow> heap_state outcome option" where
  "jmem_heap_free_block cfg ptr sz s = jmem_heap_free_block_internal cfg ptr sz False s"

definition jmem_heap_free_block_small_object ::
  "config \<Rightarrow> uint32_t \<Rightarrow> size_t \<Rightarrow> heap_state \<Rightarrow> heap_state outcome option" where
  "jmem_heap_free_block_small_object cfg ptr sz s = jmem_heap_free_block_internal cfg ptr sz True s"

subsection \<open>The allocation loop with garbage collection\<close>

text \<open>
  \<^verbatim>\<open>jmem_run_free_unused_memory_callbacks\<close> and \<^verbatim>\<open>alloc_a_segment_group\<close> are defined
  outside this file: they are parameters. The callback acts on the heap state (it may
  call free) and may end the process; the segment allocator tells whether it returned a
  segment (non-\<^verbatim>\<open>NULL\<close>). The list of severities the callback was run with is kept
  beside the state.
\<close>

record externals =
  jmem_run_free_unused_memory_callbacks ::
    "jmem_free_unused_memory_severity_t \<Rightarrow> heap_state \<Rightarrow> heap_state outcome option"
  alloc_a_segment_group :: "size_t \<Rightarrow> heap_state \<Rightarrow> (bool \<times> heap_state) option"

type_synonym world = "heap_state \<times> jmem_free_unused_memory_severity_t list"

definition run_gc ::
  "externals \<Rightarrow> jmem_free_unused_memory_severity_t \<Rightarrow> world \<Rightarrow> world outcome option" where
  "run_gc ext severity w =
     obind (jmem_run_free_unused_memory_callbacks ext severity (fst w))
       (\<lambda>s'. Some (Returns (s', snd w @ [severity])))"

definition block_alloc ::
  "config \<Rightarrow> size_t \<Rightarrow> bool \<Rightarrow> world \<Rightarrow> (pointer option \<times> world) outcome option" where
  "block_alloc cfg sz is_small_block w =
     map_option (\<lambda>(p, s'). Returns (p, (s', snd w)))
       (jmem_heap_alloc_block_internal cfg sz is_small_block (fst w))"

text \<open>
  \<^verbatim>\<open>if (alloc_a_segment_group(size) != NULL) { ...; return data_space_p; }\<close>, followed by
  the rest of the function, \<open>k\<close>.
\<close>

definition segment_stage ::
  "config \<Rightarrow> externals \<Rightarrow> size_t \<Rightarrow> bool \<Rightarrow> world \<Rightarrow>
   (world \<Rightarrow> (pointer option \<times> world) outcome option) \<Rightarrow> (pointer option \<times> world) outcome option" where
  "segment_stage cfg ext sz is_small_block w k =
     (if JMEM_SEGMENTED_HEAP cfg then
        (case alloc_a_segment_group ext sz (fst w) of
           None \<Rightarrow> None
         | Some (got, s') \<Rightarrow>
            (if got then block_alloc cfg sz is_small_block (s', snd w) else k (s', snd w)))
      else k w)"

fun gc_retry ::
  "config \<Rightarrow> externals \<Rightarrow> size_t \<Rightarrow> bool \<Rightarrow> jmem_free_unused_memory_severity_t list \<Rightarrow> world \<Rightarrow>
   (pointer option \<times> world) outcome option" where
  "gc_retry cfg ext sz is_small_block [] w = Some (Returns (None, w))"
| "gc_retry cfg ext sz is_small_block (severity # rest) w =
     (case run_gc ext severity w of
        None \<Rightarrow> None
      | Some (Terminates e) \<Rightarrow> Some (Terminates e)
      | Some (Returns w1) \<Rightarrow>
         (case block_alloc cfg sz is_small_block w1 of
            None \<Rightarrow> None
          | Some (Terminates e) \<Rightarrow> Some (Terminates e)
          | Some (Returns (p, w2)) \<Rightarrow>
             (if p \<noteq> None then Some (Returns (p, w2))
              else gc_retry cfg ext sz is_small_block rest w2)))"

definition jmem_heap_gc_and_alloc_block ::
  "config \<Rightarrow> externals \<Rightarrow> size_t \<Rightarrow> bool \<Rightarrow> bool \<Rightarrow> heap_state \<Rightarrow>
   (pointer option \<times> world) outcome option" where
  "jmem_heap_gc_and_alloc_block cfg ext required_size ret_null_on_error is_small_block s =
     (if required_size = 0 then Some (Returns (None, (s, [])))
      else
        (let sz = aligned cfg required_size
         in obind (if JMEM_GC_BEFORE_EACH_ALLOC cfg
                   then run_gc ext JMEM_FREE_UNUSED_MEMORY_SEVERITY_HIGH (s, [])
                   else Some (Returns (s, [])))
            (\<lambda>w0.
              let allocated_size = jmem_heap_blocks_size (fst w0) + sz
              in obind (if allocated_size > (if JMEM_LAZY_GC cfg then JMEM_HEAP_SIZE cfg
                                             else jmem_heap_limit (fst w0))
                        then run_gc ext JMEM_FREE_UNUSED_MEMORY_SEVERITY_LOW w0
                        else Some (Returns w0))
                 (\<lambda>w1. obind (block_alloc cfg sz is_small_block w1)
                   (\<lambda>(p, w2).
                     if p \<noteq> None then Some (Returns (p, w2))
                     else segment_stage cfg ext sz is_small_block w2
                       (\<lambda>w3. obind (gc_retry cfg ext sz is_small_block
                                      [JMEM_FREE_UNUSED_MEMORY_SEVERITY_LOW,
                                       JMEM_FREE_UNUSED_MEMORY_SEVERITY_HIGH] w3)
                         (\<lambda>(p, w4).
                           if p \<noteq> None then Some (Returns (p, w4))
                           else segment_stage cfg ext sz is_small_block w4
                             (\<lambda>w5. if \<not> ret_null_on_error
                                   then Some (Terminates ERR_OUT_OF_MEMORY)
                                   else Some (Returns (None, w5))))))))))"

definition jmem_heap_alloc_block ::
  "config \<Rightarrow> externals \<Rightarrow> size_t \<Rightarrow> heap_state \<Rightarrow> (pointer option \<times> world) outcome option" where
  "jmem_heap_alloc_block cfg ext sz s = jmem_heap_gc_and_alloc_block cfg ext sz False False s"

definition jmem_heap_alloc_block_null_on_error ::
  "config \<Rightarrow> externals \<Rightarrow> size_t \<Rightarrow> heap_state \<Rightarrow> (pointer option \<times> world) outcome option" where
  "jmem_heap_alloc_block_null_on_error cfg ext sz s = jmem_heap_gc_and_alloc_block cfg ext sz True False s"


subsection \<open>Initialisation\<close>

definition jmem_heap_init_first_free_region :: "config \<Rightarrow> heap_state \<Rightarrow> heap_state" where
  "jmem_heap_init_first_free_region cfg s =
     (let region_offset = (if JMEM_SEGMENTED_HEAP cfg then JMEM_ALIGNMENT cfg else 0);
          region_p = AREA region_offset;
          s1 = set_size region_p (if JMEM_SEGMENTED_HEAP cfg
                                  then SEG_SEGMENT_SIZE cfg - JMEM_ALIGNMENT cfg
                                  else JMEM_HEAP_AREA_SIZE cfg) s;
          s2 = set_next_offset region_p (JMEM_HEAP_END_OF_LIST cfg) s1;
          s3 = set_size FIRST 0 s2;
          s4 = set_next_offset FIRST region_offset s3
      in s4\<lparr>jmem_heap_list_skip_p := FIRST\<rparr>)"

text \<open>
  \<^verbatim>\<open>jmem_heap_init\<close> on the state that \<^verbatim>\<open>init_segmented_heap\<close> (outside this file) leaves.
\<close>

definition jmem_heap_init :: "config \<Rightarrow> heap_state \<Rightarrow> heap_state" where
  "jmem_heap_init cfg s =
     jmem_heap_init_first_free_region cfg
       (s\<lparr>jmem_heap_limit := CONFIG_MEM_HEAP_DESIRED_LIMIT cfg\<rparr>)"

subsection \<open>Concrete configurations and states\<close>

text \<open>
  A static heap of 256 bytes with 8-byte alignment, as in the scenarios of the
  specification, and the same heap cut into segments of 128 bytes.
\<close>

definition cfg_static :: config where
  "cfg_static = \<lparr>JMEM_ALIGNMENT = 8, JMEM_HEAP_END_OF_LIST = 0xFFFFFFFF,
     CONFIG_MEM_HEAP_DESIRED_LIMIT = 64, JMEM_HEAP_SIZE = 264, JMEM_HEAP_AREA_SIZE = 256,
     SEG_SEGMENT_SIZE = 128, JMEM_SEGMENTED_HEAP = False, JMEM_GC_BEFORE_EACH_ALLOC = False,
     JMEM_LAZY_GC = False, JERRY_NDEBUG = False, block_after_first = (\<lambda>_. True),
     area_address = 0x20000000\<rparr>"

definition cfg_segmented :: config where
  "cfg_segmented = cfg_static\<lparr>JMEM_SEGMENTED_HEAP := True\<rparr>"

definition stats_zero :: jmem_heap_stats_t where
  "stats_zero = \<lparr>allocated_bytes = 0, peak_allocated_bytes = 0, waste_bytes = 0,
     peak_waste_bytes = 0, alloc_count = 0, free_count = 0, skip_count = 0, nonskip_count = 0,
     alloc_iter_count = 0, free_iter_count = 0\<rparr>"

definition heap_zero :: "nat \<Rightarrow> heap_state" where
  "heap_zero n = \<lparr>first = \<lparr>next_offset = 0, size_f = 0\<rparr>,
     area = (\<lambda>_. \<lparr>next_offset = 0, size_f = 0\<rparr>),
     segments = replicate n \<lparr>occupied_size = 0\<rparr>, jmem_heap_list_skip_p = FIRST,
     jmem_heap_blocks_size = 0, jmem_heap_allocated_blocks_count = 0, jmem_heap_limit = 0,
     jmem_heap_stats = stats_zero\<rparr>"

definition heap_static :: heap_state where
  "heap_static = jmem_heap_init cfg_static (heap_zero 0)"

definition heap_segmented :: heap_state where
  "heap_segmented = jmem_heap_init cfg_segmented (heap_zero 2)"

text \<open>The value a call returned, if it returned.\<close>

definition returned :: "'a outcome option \<Rightarrow> 'a option" where
  "returned r = (case r of Some (Returns x) \<Rightarrow> Some x | _ \<Rightarrow> None)"

text \<open>A callback that frees nothing and a segment allocator that has no segment left.\<close>

definition ext_none :: externals where
  "ext_none = \<lparr>jmem_run_free_unused_memory_callbacks = (\<lambda>severity s. Some (Returns s)),
     alloc_a_segment_group = (\<lambda>sz s. Some (False, s))\<rparr>"

text \<open>
  The state after a public allocation, and after a free. The static heap after
  \<^verbatim>\<open>alloc(16)\<close> twice: blocks at offsets 0 and 16.
\<close>

definition alloc_state :: "config \<Rightarrow> size_t \<Rightarrow> heap_state \<Rightarrow> heap_state" where
  "alloc_state cfg sz s =
     (case returned (jmem_heap_alloc_block_null_on_error cfg ext_none sz s) of
        Some (p, s', tr) \<Rightarrow> s' | None \<Rightarrow> s)"

definition free_state :: "config \<Rightarrow> uint32_t \<Rightarrow> size_t \<Rightarrow> heap_state \<Rightarrow> heap_state" where
  "free_state cfg ptr sz s =
     (case returned (jmem_heap_free_block cfg ptr sz s) of Some s' \<Rightarrow> s' | None \<Rightarrow> s)"

definition heap_two_blocks :: heap_state where
  "heap_two_blocks = alloc_state cfg_static 16 (alloc_state cfg_static 16 heap_static)"

section \<open>The free list as a list of offsets\<close>

text \<open>
  \<open>is_list cfg m p xs\<close>: following \<open>next_offset\<close> from the offset \<open>p\<close> visits exactly
  the headers at \<open>xs\<close> and then reaches the end-of-list marker.
\<close>

fun is_list :: "config \<Rightarrow> (uint32_t \<Rightarrow> jmem_heap_free_t) \<Rightarrow> uint32_t \<Rightarrow> uint32_t list \<Rightarrow> bool" where
  "is_list cfg m p [] = (p = JMEM_HEAP_END_OF_LIST cfg)"
| "is_list cfg m p (x # xs) = (p = x \<and> x \<noteq> JMEM_HEAP_END_OF_LIST cfg \<and> is_list cfg m (next_offset (m x)) xs)"

definition free_list :: "config \<Rightarrow> heap_state \<Rightarrow> uint32_t list \<Rightarrow> bool" where
  "free_list cfg s xs = is_list cfg (area s) (next_offset (first s)) xs"

text \<open>No region of the list \<open>xs\<close> holds \<open>n\<close> bytes.\<close>

definition no_fit :: "heap_state \<Rightarrow> size_t \<Rightarrow> uint32_t list \<Rightarrow> bool" where
  "no_fit s n xs = list_all (\<lambda>x. size_f (area s x) < n) xs"

text \<open>\<open>n\<close> more visits of the allocation walk in the statistics.\<close>

definition add_alloc_iter :: "nat \<Rightarrow> heap_state \<Rightarrow> heap_state" where
  "add_alloc_iter n s = s\<lparr>jmem_heap_stats := (jmem_heap_stats s)\<lparr>alloc_iter_count :=
      alloc_iter_count (jmem_heap_stats s) + of_nat n\<rparr>\<rparr>"

text \<open>The static heap after \<^verbatim>\<open>alloc(8)\<close> and the free of that block.\<close>

definition heap_emptied :: heap_state where
  "heap_emptied = free_state cfg_static 0 8 (alloc_state cfg_static 8 heap_static)"







text \<open>
  The static heap after \<^verbatim>\<open>alloc(8)\<close>, \<^verbatim>\<open>alloc(8)\<close>, \<^verbatim>\<open>alloc(240)\<close>, the frees of the
  first and the third block, and \<^verbatim>\<open>alloc(240)\<close> again: one free region of 8 bytes at
  offset 0, to which the skip pointer points.
\<close>

definition heap_one_granule :: heap_state where
  "heap_one_granule =
     alloc_state cfg_static 240 (free_state cfg_static 16 240 (free_state cfg_static 0 8
       (alloc_state cfg_static 240 (alloc_state cfg_static 8 (alloc_state cfg_static 8 heap_static)))))"




section \<open>Segments and blocks\<close>

text \<open>
  \<open>isect S a b i\<close>: the number of bytes of the offset range \<open>[a, b)\<close> that lie in
  segment \<open>i\<close>, the segments being \<open>S\<close> bytes each. \<open>attribute cfg f a b segs\<close>: the
  segment table after each segment touched by \<open>[a, b)\<close> has had its intersection
  applied to its \<open>occupied_size\<close> by \<open>f\<close>.
\<close>

definition isect :: "nat \<Rightarrow> nat \<Rightarrow> nat \<Rightarrow> nat \<Rightarrow> nat" where
  "isect S a b i = min b ((i + 1) * S) - max a (i * S)"

definition attribute ::
  "config \<Rightarrow> (uint32_t \<Rightarrow> uint32_t \<Rightarrow> uint32_t) \<Rightarrow> nat \<Rightarrow> nat \<Rightarrow> jmem_segment_t list \<Rightarrow> jmem_segment_t list" where
  "attribute cfg f a b segs =
     map (\<lambda>i. if 0 < isect (unat (SEG_SEGMENT_SIZE cfg)) a b i
              then (segs ! i)\<lparr>occupied_size :=
                     f (occupied_size (segs ! i)) (of_nat (isect (unat (SEG_SEGMENT_SIZE cfg)) a b i))\<rparr>
              else segs ! i) [0..<length segs]"

text \<open>The sum of \<open>occupied_size\<close> over the segment table, in \<^verbatim>\<open>size_t\<close> arithmetic.\<close>

definition segments_sum :: "heap_state \<Rightarrow> size_t" where
  "segments_sum s = sum_list (map occupied_size (segments s))"

text \<open>
  The configuration of a segmented heap with the table \<open>segs\<close>: the alignment divides
  the segment size and the logical heap is below 2 GiB, so that sizes fit the \<^verbatim>\<open>int\<close>
  counter of the walk.
\<close>

definition segments_ok :: "config \<Rightarrow> jmem_segment_t list \<Rightarrow> bool" where
  "segments_ok cfg segs \<longleftrightarrow>
     0 < unat (JMEM_ALIGNMENT cfg) \<and> 0 < unat (SEG_SEGMENT_SIZE cfg) \<and>
     unat (JMEM_ALIGNMENT cfg) dvd unat (SEG_SEGMENT_SIZE cfg) \<and>
     unat (SEG_SEGMENT_SIZE cfg) * length segs < 2 ^ 31"

text \<open>The block of \<open>n\<close> bytes at offset \<open>a\<close> is aligned and lies in the segments.\<close>

definition block_in_segments :: "config \<Rightarrow> jmem_segment_t list \<Rightarrow> nat \<Rightarrow> nat \<Rightarrow> bool" where
  "block_in_segments cfg segs a n \<longleftrightarrow>
     unat (JMEM_ALIGNMENT cfg) dvd a \<and> unat (JMEM_ALIGNMENT cfg) dvd n \<and>
     a + n \<le> unat (SEG_SEGMENT_SIZE cfg) * length segs"

text \<open>
  A segmented heap of two segments of 128 bytes whose free region runs from offset 8 to
  the end of the second segment, and that heap after \<^verbatim>\<open>alloc(200)\<close>: the block at
  offsets 8 to 208 lies across the segment boundary.
\<close>

definition heap_span :: heap_state where
  "heap_span = set_size (AREA 8) 248 heap_segmented"

definition heap_span_used :: heap_state where
  "heap_span_used = alloc_state cfg_segmented 200 heap_span"

section \<open>The invariant of the free list\<close>

text \<open>
  \<open>region_end s x\<close>: the offset just after the free region whose header is at \<open>x\<close>.
  \<open>heap_end\<close>: the size of the logical heap. \<open>free_set s xs\<close>: the bytes (offsets) of the
  regions \<open>xs\<close>.
\<close>

definition region_end :: "heap_state \<Rightarrow> uint32_t \<Rightarrow> nat" where
  "region_end s x = unat x + unat (size_f (area s x))"

definition heap_end :: "config \<Rightarrow> heap_state \<Rightarrow> nat" where
  "heap_end cfg s =
     (if JMEM_SEGMENTED_HEAP cfg then unat (SEG_SEGMENT_SIZE cfg) * length (segments s)
      else unat (JMEM_HEAP_AREA_SIZE cfg))"

definition free_set :: "heap_state \<Rightarrow> uint32_t list \<Rightarrow> nat set" where
  "free_set s xs = (\<Union>x\<in>set xs. {unat x ..< region_end s x})"

text \<open>
  The skip pointer is \<^verbatim>\<open>&first\<close>, a node of the list, or the decompressed end-of-list
  marker (which the fast path can leave, and which free treats as \<^verbatim>\<open>&first\<close>).
\<close>

definition skip_ok :: "config \<Rightarrow> heap_state \<Rightarrow> uint32_t list \<Rightarrow> bool" where
  "skip_ok cfg s xs =
     (case jmem_heap_list_skip_p s of FIRST \<Rightarrow> True
      | AREA k \<Rightarrow> k \<in> set xs \<or> k = JMEM_HEAP_END_OF_LIST cfg)"

text \<open>
  The free list of \<open>s\<close> is \<open>xs\<close>: its regions are aligned, not empty, inside the heap,
  in ascending order, and between two of them lies at least one allocated byte
  (no two regions are adjacent). The end-of-list marker is beyond the heap.
\<close>

definition region_ok :: "config \<Rightarrow> heap_state \<Rightarrow> uint32_t \<Rightarrow> bool" where
  "region_ok cfg s x \<longleftrightarrow>
     unat (JMEM_ALIGNMENT cfg) dvd unat x \<and> unat (JMEM_ALIGNMENT cfg) dvd unat (size_f (area s x)) \<and>
     0 < unat (size_f (area s x)) \<and> region_end s x \<le> heap_end cfg s"

definition heap_inv :: "config \<Rightarrow> heap_state \<Rightarrow> uint32_t list \<Rightarrow> bool" where
  "heap_inv cfg s xs \<longleftrightarrow>
     0 < unat (JMEM_ALIGNMENT cfg) \<and> heap_end cfg s < unat (JMEM_HEAP_END_OF_LIST cfg) \<and>
     free_list cfg s xs \<and> list_all (region_ok cfg s) xs \<and>
     sorted_wrt (\<lambda>x y. region_end s x < unat y) xs \<and> skip_ok cfg s xs"

text \<open>
  The block of \<open>n\<close> bytes at offset \<open>b\<close> can be freed: it is aligned, not empty, inside
  the heap, and none of its bytes is free.
\<close>

definition valid_block :: "config \<Rightarrow> heap_state \<Rightarrow> uint32_t list \<Rightarrow> uint32_t \<Rightarrow> size_t \<Rightarrow> bool" where
  "valid_block cfg s xs b n \<longleftrightarrow>
     unat (JMEM_ALIGNMENT cfg) dvd unat b \<and> unat (JMEM_ALIGNMENT cfg) dvd unat n \<and> 0 < unat n \<and>
     unat b + unat n \<le> heap_end cfg s \<and>
     {unat b ..< unat b + unat n} \<inter> free_set s xs = {}"

text \<open>
  The coalescing rule in the words of the specification, to be compared with what
  \<open>free_link\<close> leaves. \<open>nodes_below\<close> and \<open>nodes_above\<close> are the regions before and after the block at
  \<open>b\<close>. The block merges with its predecessor exactly when the predecessor's end is
  \<open>b\<close>, and with its successor exactly when the end of the merged region is the
  successor. \<open>list_after_free\<close> is the free list that this rule gives.
\<close>

definition nodes_below :: "uint32_t \<Rightarrow> uint32_t list \<Rightarrow> uint32_t list" where
  "nodes_below b xs = takeWhile (\<lambda>x. x < b) xs"

definition nodes_above :: "uint32_t \<Rightarrow> uint32_t list \<Rightarrow> uint32_t list" where
  "nodes_above b xs = dropWhile (\<lambda>x. x < b) xs"

definition merges_prev :: "heap_state \<Rightarrow> uint32_t list \<Rightarrow> uint32_t \<Rightarrow> bool" where
  "merges_prev s xs b \<longleftrightarrow> nodes_below b xs \<noteq> [] \<and> region_end s (last (nodes_below b xs)) = unat b"

definition merged_start :: "heap_state \<Rightarrow> uint32_t list \<Rightarrow> uint32_t \<Rightarrow> uint32_t" where
  "merged_start s xs b = (if merges_prev s xs b then last (nodes_below b xs) else b)"

definition merged_end :: "heap_state \<Rightarrow> uint32_t list \<Rightarrow> uint32_t \<Rightarrow> size_t \<Rightarrow> nat" where
  "merged_end s xs b n =
     (if merges_prev s xs b then region_end s (last (nodes_below b xs)) + unat n else unat b + unat n)"

definition merges_next :: "heap_state \<Rightarrow> uint32_t list \<Rightarrow> uint32_t \<Rightarrow> size_t \<Rightarrow> bool" where
  "merges_next s xs b n \<longleftrightarrow> nodes_above b xs \<noteq> [] \<and> merged_end s xs b n = unat (hd (nodes_above b xs))"

definition list_after_free :: "heap_state \<Rightarrow> uint32_t list \<Rightarrow> uint32_t \<Rightarrow> size_t \<Rightarrow> uint32_t list" where
  "list_after_free s xs b n =
     (if merges_prev s xs b then nodes_below b xs else nodes_below b xs @ [b]) @
     (if merges_next s xs b n then tl (nodes_above b xs) else nodes_above b xs)"

text \<open>The node at which the walk of the free stops: the last one before \<open>b\<close>.\<close>

definition prev_of :: "uint32_t \<Rightarrow> uint32_t list \<Rightarrow> pointer" where
  "prev_of b xs = last (FIRST # map AREA (nodes_below b xs))"

text \<open>Freeing a list of blocks, one after the other.\<close>

fun free_all :: "config \<Rightarrow> (uint32_t \<times> size_t) list \<Rightarrow> heap_state \<Rightarrow> heap_state outcome option" where
  "free_all cfg [] s = Some (Returns s)"
| "free_all cfg ((ptr, sz) # bs) s =
     (case jmem_heap_free_block cfg ptr sz s of
        None \<Rightarrow> None
      | Some (Terminates e) \<Rightarrow> Some (Terminates e)
      | Some (Returns s') \<Rightarrow> free_all cfg bs s')"

text \<open>The bytes of a block, for its aligned size.\<close>

definition span :: "config \<Rightarrow> uint32_t \<times> size_t \<Rightarrow> nat set" where
  "span cfg blk = {unat (fst blk) ..< unat (fst blk) + unat (aligned cfg (snd blk))}"

text \<open>
  The blocks \<open>bs\<close> can be freed in this order on a heap whose free bytes are \<open>F\<close>: each is
  aligned, not empty, inside the heap, and none of its bytes is free when its turn comes.
\<close>

fun blocks_valid :: "config \<Rightarrow> nat \<Rightarrow> nat set \<Rightarrow> (uint32_t \<times> size_t) list \<Rightarrow> bool" where
  "blocks_valid cfg hend F [] = True"
| "blocks_valid cfg hend F (blk # bs) =
     (unat (JMEM_ALIGNMENT cfg) dvd unat (fst blk) \<and> 0 < unat (aligned cfg (snd blk)) \<and>
      unat (fst blk) + unat (aligned cfg (snd blk)) \<le> hend \<and> span cfg blk \<inter> F = {} \<and>
      blocks_valid cfg hend (F \<union> span cfg blk) bs)"

section \<open>The heap limit\<close>


definition lowered_while :: "nat \<Rightarrow> nat \<Rightarrow> nat \<Rightarrow> nat \<Rightarrow> bool" where
  "lowered_while d l b l' \<longleftrightarrow> l' \<le> l \<and> d dvd (l - l') \<and> l' < b + d \<and> (l' = l \<or> b \<le> l')"


section \<open>Basic facts\<close>

lemma rd_simps [simp]:
  "rd s FIRST = first s" "rd s (AREA off) = area s off"
  by (simp_all add: rd_def)

lemma set_size_simps [simp]:
  "set_size FIRST v s = s\<lparr>first := (first s)\<lparr>size_f := v\<rparr>\<rparr>"
  "set_size (AREA off) v s = s\<lparr>area := (area s)(off := (area s off)\<lparr>size_f := v\<rparr>)\<rparr>"
  by (simp_all add: set_size_def wr_def)

lemma set_next_offset_simps [simp]:
  "set_next_offset FIRST v s = s\<lparr>first := (first s)\<lparr>next_offset := v\<rparr>\<rparr>"
  "set_next_offset (AREA off) v s = s\<lparr>area := (area s)(off := (area s off)\<lparr>next_offset := v\<rparr>)\<rparr>"
  by (simp_all add: set_next_offset_def wr_def)

lemma stat_iter_simps [simp]:
  "jmem_heap_stat_alloc_iter s =
     s\<lparr>jmem_heap_stats := (jmem_heap_stats s)\<lparr>alloc_iter_count := alloc_iter_count (jmem_heap_stats s) + 1\<rparr>\<rparr>"
  "jmem_heap_stat_free_iter s =
     s\<lparr>jmem_heap_stats := (jmem_heap_stats s)\<lparr>free_iter_count := free_iter_count (jmem_heap_stats s) + 1\<rparr>\<rparr>"
  "jmem_heap_stat_skip s =
     s\<lparr>jmem_heap_stats := (jmem_heap_stats s)\<lparr>skip_count := skip_count (jmem_heap_stats s) + 1\<rparr>\<rparr>"
  "jmem_heap_stat_nonskip s =
     s\<lparr>jmem_heap_stats := (jmem_heap_stats s)\<lparr>nonskip_count := nonskip_count (jmem_heap_stats s) + 1\<rparr>\<rparr>"
  by (simp_all add: jmem_heap_stat_alloc_iter_def jmem_heap_stat_free_iter_def
      jmem_heap_stat_skip_def jmem_heap_stat_nonskip_def upd_stats_def)

lemma stat_alloc_fields [simp]:
  "first (jmem_heap_stat_alloc cfg n s) = first s"
  "area (jmem_heap_stat_alloc cfg n s) = area s"
  "segments (jmem_heap_stat_alloc cfg n s) = segments s"
  "jmem_heap_list_skip_p (jmem_heap_stat_alloc cfg n s) = jmem_heap_list_skip_p s"
  "jmem_heap_blocks_size (jmem_heap_stat_alloc cfg n s) = jmem_heap_blocks_size s"
  "jmem_heap_allocated_blocks_count (jmem_heap_stat_alloc cfg n s) = jmem_heap_allocated_blocks_count s"
  "jmem_heap_limit (jmem_heap_stat_alloc cfg n s) = jmem_heap_limit s"
  by (simp_all add: jmem_heap_stat_alloc_def Let_def)

lemma stat_free_fields [simp]:
  "first (jmem_heap_stat_free cfg n s) = first s"
  "area (jmem_heap_stat_free cfg n s) = area s"
  "segments (jmem_heap_stat_free cfg n s) = segments s"
  "jmem_heap_list_skip_p (jmem_heap_stat_free cfg n s) = jmem_heap_list_skip_p s"
  "jmem_heap_blocks_size (jmem_heap_stat_free cfg n s) = jmem_heap_blocks_size s"
  "jmem_heap_allocated_blocks_count (jmem_heap_stat_free cfg n s) = jmem_heap_allocated_blocks_count s"
  "jmem_heap_limit (jmem_heap_stat_free cfg n s) = jmem_heap_limit s"
  by (simp_all add: jmem_heap_stat_free_def Let_def)

subsection \<open>The two loops on the heap limit\<close>

lemma raise_heap_limit_frame:
  assumes "raise_heap_limit cfg s = Some s'"
  shows "\<exists>l. s' = s\<lparr>jmem_heap_limit := l\<rparr>"
proof (rule raise_heap_limit.raw_induct
    [where P = "\<lambda>cfg s s'. \<exists>l. s' = s\<lparr>jmem_heap_limit := l\<rparr>", OF _ assms], goal_cases)
  case (1 f cfg s r)
  show ?case
  proof (cases "jmem_heap_limit s \<le> jmem_heap_blocks_size s")
    case True
    with 1(2) obtain l where "r = s\<lparr>jmem_heap_limit := l\<rparr>"
      using 1(1) by fastforce
    then show ?thesis by blast
  next
    case False
    with 1(2) have "r = s\<lparr>jmem_heap_limit := jmem_heap_limit s\<rparr>" by simp
    then show ?thesis by blast
  qed
qed

lemma lower_heap_limit_frame:
  assumes "lower_heap_limit cfg s = Some s'"
  shows "\<exists>l. s' = s\<lparr>jmem_heap_limit := l\<rparr>"
proof (rule lower_heap_limit.raw_induct
    [where P = "\<lambda>cfg s s'. \<exists>l. s' = s\<lparr>jmem_heap_limit := l\<rparr>", OF _ assms], goal_cases)
  case (1 f cfg s r)
  show ?case
  proof (cases "jmem_heap_blocks_size s + CONFIG_MEM_HEAP_DESIRED_LIMIT cfg \<le> jmem_heap_limit s")
    case True
    with 1(2) obtain l where "r = s\<lparr>jmem_heap_limit := l\<rparr>"
      using 1(1) by fastforce
    then show ?thesis by blast
  next
    case False
    with 1(2) have "r = s\<lparr>jmem_heap_limit := jmem_heap_limit s\<rparr>" by simp
    then show ?thesis by blast
  qed
qed

lemma raise_heap_limit_total:
  assumes "CONFIG_MEM_HEAP_DESIRED_LIMIT cfg \<noteq> 0"
    and "unat (jmem_heap_blocks_size s) + unat (CONFIG_MEM_HEAP_DESIRED_LIMIT cfg) < 2 ^ 32"
  shows "\<exists>l. raise_heap_limit cfg s = Some (s\<lparr>jmem_heap_limit := l\<rparr>) \<and> jmem_heap_blocks_size s < l \<and>
             jmem_heap_limit s \<le> l \<and>
             (unat (CONFIG_MEM_HEAP_DESIRED_LIMIT cfg) dvd unat (jmem_heap_limit s) \<longrightarrow>
                unat (CONFIG_MEM_HEAP_DESIRED_LIMIT cfg) dvd unat l) \<and>
             (jmem_heap_blocks_size s < jmem_heap_limit s \<longrightarrow> l = jmem_heap_limit s)"
  using assms
proof (induction "unat (jmem_heap_blocks_size s) + 1 - unat (jmem_heap_limit s)" arbitrary: s rule: less_induct)
  case less
  let ?D = "CONFIG_MEM_HEAP_DESIRED_LIMIT cfg"
  show ?case
  proof (cases "jmem_heap_blocks_size s < jmem_heap_limit s")
    case True
    then have "\<not> jmem_heap_limit s \<le> jmem_heap_blocks_size s"
      by simp
    then have "raise_heap_limit cfg s = Some s"
      by (subst raise_heap_limit.simps) simp
    with True less.prems show ?thesis
      by (intro exI[of _ "jmem_heap_limit s"]) simp
  next
    case False
    then have le: "unat (jmem_heap_limit s) \<le> unat (jmem_heap_blocks_size s)"
      by (simp add: word_le_nat_alt not_less)
    let ?s = "s\<lparr>jmem_heap_limit := jmem_heap_limit s + ?D\<rparr>"
    have D0: "0 < unat ?D" using less.prems(1) by (simp add: unat_gt_0)
    have ua: "unat (jmem_heap_limit s + ?D) = unat (jmem_heap_limit s) + unat ?D"
      using le less.prems(2) by (simp add: unat_add_lem[THEN iffD1])
    have step: "raise_heap_limit cfg s = raise_heap_limit cfg ?s"
      using False by (subst raise_heap_limit.simps) (simp add: not_less)
    have "\<exists>l. raise_heap_limit cfg ?s = Some (?s\<lparr>jmem_heap_limit := l\<rparr>) \<and> jmem_heap_blocks_size ?s < l \<and>
             jmem_heap_limit ?s \<le> l \<and>
             (unat ?D dvd unat (jmem_heap_limit ?s) \<longrightarrow> unat ?D dvd unat l) \<and>
             (jmem_heap_blocks_size ?s < jmem_heap_limit ?s \<longrightarrow> l = jmem_heap_limit ?s)"
      using less.prems le D0 ua by (intro less.hyps) simp_all
    then obtain l where l: "raise_heap_limit cfg ?s = Some (?s\<lparr>jmem_heap_limit := l\<rparr>)"
      "jmem_heap_blocks_size s < l" "jmem_heap_limit s + ?D \<le> l"
      "unat ?D dvd unat (jmem_heap_limit s) \<longrightarrow> unat ?D dvd unat l"
      using ua by auto
    have "jmem_heap_limit s \<le> l"
      using l(3) ua by (simp add: word_le_nat_alt)
    with l step False show ?thesis
      by (intro exI[of _ l]) simp
  qed
qed

subsection \<open>The fast path\<close>

lemma fast_occupancy_frame:
  "fast_occupancy cfg b s = Some s' \<Longrightarrow> \<exists>segs. s' = s\<lparr>segments := segs\<rparr>"
  by (cases "JMEM_SEGMENTED_HEAP cfg") (auto simp: fast_occupancy_def intro: exI[of _ "segments s"])

lemma fast_effect:
  assumes "jmem_heap_alloc_block_internal_fast cfg small s = Some (p, s1)"
  shows "p = Some (AREA (next_offset (first s))) \<and> size_f (first s1) = size_f (first s) \<and>
     (if size_f (area s (next_offset (first s))) = JMEM_ALIGNMENT cfg
      then next_offset (first s1) = next_offset (area s (next_offset (first s))) \<and> area s1 = area s
      else next_offset (first s1) = next_offset (first s) + JMEM_ALIGNMENT cfg \<and>
           area s1 = (area s)(next_offset (first s) + JMEM_ALIGNMENT cfg :=
              \<lparr>next_offset = next_offset (area s (next_offset (first s))),
               size_f = size_f (area s (next_offset (first s))) - JMEM_ALIGNMENT cfg\<rparr>))"
  using assms unfolding jmem_heap_alloc_block_internal_fast_def
  by (auto simp: Let_def JMEM_DECOMPRESS_POINTER_INTERNAL_def fun_eq_iff
      split: option.splits if_splits dest!: fast_occupancy_frame)

lemma aligned_zero: "aligned cfg 0 = 0"
proof (cases "JMEM_ALIGNMENT cfg = 0")
  case True then show ?thesis by (simp add: aligned_def)
next
  case False
  then have "JMEM_ALIGNMENT cfg - 1 < JMEM_ALIGNMENT cfg"
    by (simp add: word_less_nat_alt unat_minus_one unat_gt_0)
  then have "(JMEM_ALIGNMENT cfg - 1) div JMEM_ALIGNMENT cfg = 0"
    by (simp add: word_less_nat_alt unat_div unat_eq_zero[symmetric])
  then show ?thesis by (simp add: aligned_def)
qed

lemma lower_heap_limit_total:
  assumes "CONFIG_MEM_HEAP_DESIRED_LIMIT cfg \<noteq> 0"
    and "unat (jmem_heap_blocks_size s) + unat (CONFIG_MEM_HEAP_DESIRED_LIMIT cfg) < 2 ^ 32"
    and "unat (CONFIG_MEM_HEAP_DESIRED_LIMIT cfg) dvd unat (jmem_heap_limit s)"
    and "jmem_heap_blocks_size s \<le> jmem_heap_limit s"
  shows "\<exists>l. lower_heap_limit cfg s = Some (s\<lparr>jmem_heap_limit := l\<rparr>) \<and> jmem_heap_blocks_size s \<le> l \<and>
             l \<le> jmem_heap_limit s \<and>
             unat (CONFIG_MEM_HEAP_DESIRED_LIMIT cfg) dvd unat l \<and>
             unat l < unat (jmem_heap_blocks_size s) + unat (CONFIG_MEM_HEAP_DESIRED_LIMIT cfg)"
  using assms
proof (induction "unat (jmem_heap_limit s)" arbitrary: s rule: less_induct)
  case less
  let ?D = "CONFIG_MEM_HEAP_DESIRED_LIMIT cfg"
  let ?b = "jmem_heap_blocks_size s"
  have ub: "unat (?b + ?D) = unat ?b + unat ?D"
    using less.prems(2) by (simp add: unat_add_lem[THEN iffD1])
  have D0: "0 < unat ?D" using less.prems(1) by (simp add: unat_gt_0)
  show ?case
  proof (cases "?b + ?D \<le> jmem_heap_limit s")
    case False
    then have "lower_heap_limit cfg s = Some s"
      by (subst lower_heap_limit.simps) simp
    moreover from False ub have "unat (jmem_heap_limit s) < unat ?b + unat ?D"
      by (simp add: word_le_nat_alt)
    ultimately show ?thesis using less.prems
      by (intro exI[of _ "jmem_heap_limit s"]) simp
  next
    case True
    then have le: "unat ?b + unat ?D \<le> unat (jmem_heap_limit s)"
      using ub by (simp add: word_le_nat_alt)
    then have dle: "?D \<le> jmem_heap_limit s"
      by (simp add: word_le_nat_alt)
    have us: "unat (jmem_heap_limit s - ?D) = unat (jmem_heap_limit s) - unat ?D"
      using dle by (simp add: unat_sub)
    let ?s = "s\<lparr>jmem_heap_limit := jmem_heap_limit s - ?D\<rparr>"
    have step: "lower_heap_limit cfg s = lower_heap_limit cfg ?s"
      using True by (subst lower_heap_limit.simps) simp
    have dv: "unat ?D dvd unat (jmem_heap_limit s) - unat ?D"
      using less.prems(3) by (simp add: dvd_diff_nat)
    have "\<exists>l. lower_heap_limit cfg ?s = Some (?s\<lparr>jmem_heap_limit := l\<rparr>) \<and> jmem_heap_blocks_size ?s \<le> l \<and>
             l \<le> jmem_heap_limit ?s \<and> unat ?D dvd unat l \<and>
             unat l < unat (jmem_heap_blocks_size ?s) + unat ?D"
      using less.prems le D0 us dv by (intro less.hyps) (simp_all add: word_le_nat_alt)
    then obtain l where l: "lower_heap_limit cfg ?s = Some (?s\<lparr>jmem_heap_limit := l\<rparr>)"
      "?b \<le> l" "l \<le> jmem_heap_limit s - ?D" "unat ?D dvd unat l" "unat l < unat ?b + unat ?D"
      by auto
    have "l \<le> jmem_heap_limit s"
      using l(3) us by (simp add: word_le_nat_alt)
    with l step show ?thesis
      by (intro exI[of _ l]) simp
  qed
qed

lemma free_walk_frame:
  assumes "free_walk b p s = Some (q, s')"
  shows "\<exists>st. s' = s\<lparr>jmem_heap_stats := st\<rparr>"
proof (rule free_walk.raw_induct
    [where P = "\<lambda>b p s r. \<exists>st. snd r = s\<lparr>jmem_heap_stats := st\<rparr>", OF _ assms, simplified], goal_cases)
  case (1 f b p s r)
  show ?case
  proof (cases "next_offset (rd s p) < b")
    case True
    with 1(2) obtain st where "snd r = (jmem_heap_stat_free_iter s)\<lparr>jmem_heap_stats := st\<rparr>"
      using 1(1) by fastforce
    then show ?thesis by auto
  next
    case False
    with 1(2) have "snd r = s\<lparr>jmem_heap_stats := jmem_heap_stats s\<rparr>" by auto
    then show ?thesis by blast
  qed
qed

lemma segment_occupancy_frame:
  "segment_occupancy cfg f b n s = Some s' \<Longrightarrow> \<exists>segs. s' = s\<lparr>segments := segs\<rparr>"
  by (cases "JMEM_SEGMENTED_HEAP cfg") (auto simp: segment_occupancy_def Let_def intro: exI[of _ "segments s"])

lemma segment_occupancy_zero: "segment_occupancy cfg f b 0 s = Some s"
  by (simp add: segment_occupancy_def Let_def segment_walk.simps)




lemma free_link_fields [simp]:
  "jmem_heap_limit (free_link b n p s) = jmem_heap_limit s"
  "jmem_heap_blocks_size (free_link b n p s) = jmem_heap_blocks_size s"
  "jmem_heap_allocated_blocks_count (free_link b n p s) = jmem_heap_allocated_blocks_count s"
  "segments (free_link b n p s) = segments s"
  "jmem_heap_stats (free_link b n p s) = jmem_heap_stats s"
  "jmem_heap_list_skip_p (free_link b n p s) = p"
  by (cases p; simp add: free_link_def Let_def JMEM_DECOMPRESS_POINTER_INTERNAL_def
      jmem_heap_get_region_end_def addr_of_def)+


lemma free_bodyE:
  assumes "free_body cfg ptr sz s = Some s'"
  obtains start st prev s2 s4 s6 where
    "start = jmem_heap_list_skip_p s \<or> start = FIRST"
    "free_walk ptr start (s\<lparr>jmem_heap_stats := st\<rparr>) = Some (prev, s2)"
    "segment_occupancy cfg (-) ptr (aligned cfg sz) (free_link ptr (aligned cfg sz) prev s2) = Some s4"
    "lower_heap_limit cfg
       (s4\<lparr>jmem_heap_blocks_size := jmem_heap_blocks_size s4 - aligned cfg sz,
           jmem_heap_allocated_blocks_count := jmem_heap_allocated_blocks_count s4 - 1\<rparr>) = Some s6"
    "s' = jmem_heap_stat_free cfg sz s6"
proof -
  let ?s1 = "jmem_heap_stat_free_iter s"
  let ?ok = "case jmem_heap_list_skip_p ?s1 of
               AREA skip_offset \<Rightarrow>
                 (if JMEM_SEGMENTED_HEAP cfg then ptr > skip_offset
                  else area_address cfg + ptr > area_address cfg + skip_offset)
             | FIRST \<Rightarrow> block_after_first cfg ptr"
  let ?w = "if ?ok then free_walk ptr (jmem_heap_list_skip_p ?s1) (jmem_heap_stat_skip ?s1)
            else free_walk ptr FIRST (jmem_heap_stat_nonskip ?s1)"
  from assms obtain prev s2 where w: "?w = Some (prev, s2)"
    unfolding free_body_def Let_def by (cases ?w) auto
  from assms w obtain s4 where
    o: "segment_occupancy cfg (-) ptr (aligned cfg sz) (free_link ptr (aligned cfg sz) prev s2) = Some s4"
    unfolding free_body_def Let_def
    by (cases "segment_occupancy cfg (-) ptr (aligned cfg sz) (free_link ptr (aligned cfg sz) prev s2)") auto
  from assms w o obtain s6 where
    l: "lower_heap_limit cfg
       (s4\<lparr>jmem_heap_blocks_size := jmem_heap_blocks_size s4 - aligned cfg sz,
           jmem_heap_allocated_blocks_count := jmem_heap_allocated_blocks_count s4 - 1\<rparr>) = Some s6"
    and e: "s' = jmem_heap_stat_free cfg sz s6"
    unfolding free_body_def Let_def by auto
  show thesis
  proof (cases ?ok)
    case True
    with w have "free_walk ptr (jmem_heap_list_skip_p s)
        (s\<lparr>jmem_heap_stats := jmem_heap_stats (jmem_heap_stat_skip ?s1)\<rparr>) = Some (prev, s2)"
      by simp
    then show ?thesis using o l e by (intro that[of "jmem_heap_list_skip_p s"]) auto
  next
    case False
    with w have "free_walk ptr FIRST
        (s\<lparr>jmem_heap_stats := jmem_heap_stats (jmem_heap_stat_nonskip ?s1)\<rparr>) = Some (prev, s2)"
      by simp
    then show ?thesis using o l e by (intro that[of FIRST]) auto
  qed
qed

lemma free_body_counters:
  assumes "free_body cfg ptr sz s = Some s'"
  shows "\<exists>s6. lower_heap_limit cfg s6 = Some (s6\<lparr>jmem_heap_limit := jmem_heap_limit s'\<rparr>) \<and>
     jmem_heap_limit s6 = jmem_heap_limit s \<and>
     jmem_heap_blocks_size s6 = jmem_heap_blocks_size s - aligned cfg sz \<and>
     jmem_heap_blocks_size s' = jmem_heap_blocks_size s - aligned cfg sz \<and>
     jmem_heap_allocated_blocks_count s' = jmem_heap_allocated_blocks_count s - 1 \<and>
     (\<exists>prev s3. jmem_heap_list_skip_p s' = prev \<and> segments s3 = segments s \<and>
        segment_occupancy cfg (-) ptr (aligned cfg sz) s3 = Some (s3\<lparr>segments := segments s'\<rparr>))"
proof -
  from assms obtain start st prev s2 s4 s6 where
    w: "free_walk ptr start (s\<lparr>jmem_heap_stats := st\<rparr>) = Some (prev, s2)"
    and o: "segment_occupancy cfg (-) ptr (aligned cfg sz) (free_link ptr (aligned cfg sz) prev s2) = Some s4"
    and l: "lower_heap_limit cfg
       (s4\<lparr>jmem_heap_blocks_size := jmem_heap_blocks_size s4 - aligned cfg sz,
           jmem_heap_allocated_blocks_count := jmem_heap_allocated_blocks_count s4 - 1\<rparr>) = Some s6"
    and e: "s' = jmem_heap_stat_free cfg sz s6"
    by (rule free_bodyE)
  from free_walk_frame[OF w] obtain st2 where s2: "s2 = s\<lparr>jmem_heap_stats := st2\<rparr>" by auto
  let ?s3 = "free_link ptr (aligned cfg sz) prev s2"
  from segment_occupancy_frame[OF o] obtain segs where s4: "s4 = ?s3\<lparr>segments := segs\<rparr>" by auto
  let ?s5 = "s4\<lparr>jmem_heap_blocks_size := jmem_heap_blocks_size s4 - aligned cfg sz,
           jmem_heap_allocated_blocks_count := jmem_heap_allocated_blocks_count s4 - 1\<rparr>"
  from lower_heap_limit_frame[OF l] obtain lim where s6: "s6 = ?s5\<lparr>jmem_heap_limit := lim\<rparr>" by auto
  have "lower_heap_limit cfg ?s5 = Some (?s5\<lparr>jmem_heap_limit := jmem_heap_limit s'\<rparr>)"
    using l s6 e by simp
  moreover have "segment_occupancy cfg (-) ptr (aligned cfg sz) ?s3 = Some (?s3\<lparr>segments := segments s'\<rparr>)"
    using o s4 s6 e by simp
  ultimately show ?thesis
    using s2 s4 s6 e
    by (intro exI[of _ ?s5] conjI exI[of _ prev] exI[of _ ?s3]) simp_all
qed

lemma slow_take_blocks:
  "slow_take cfg req cur prev nxt s = Some s' \<Longrightarrow>
     jmem_heap_blocks_size s' = jmem_heap_blocks_size s + req \<and>
     jmem_heap_allocated_blocks_count s' = jmem_heap_allocated_blocks_count s + 1"
  unfolding slow_take_def
  by (cases prev) (auto simp: Let_def JMEM_DECOMPRESS_POINTER_INTERNAL_def
      split: option.splits if_splits dest!: segment_occupancy_frame)

lemma slow_loop_blocks:
  assumes "slow_loop cfg req cur prev s = Some r"
  shows "jmem_heap_blocks_size (snd r) = (if fst r = None then jmem_heap_blocks_size s else jmem_heap_blocks_size s + req)"
proof (rule slow_loop.raw_induct
    [where P = "\<lambda>cfg req cur prev s r. jmem_heap_blocks_size (snd r) =
        (if fst r = None then jmem_heap_blocks_size s else jmem_heap_blocks_size s + req)", OF _ assms], goal_cases)
  case (1 f cfg req cur prev s r)
  then show ?case
    by (auto simp: Let_def split: if_splits dest!: slow_take_blocks)
qed

lemma fast_blocks:
  "jmem_heap_alloc_block_internal_fast cfg small s = Some r \<Longrightarrow>
     fst r \<noteq> None \<and> jmem_heap_blocks_size (snd r) = jmem_heap_blocks_size s + JMEM_ALIGNMENT cfg"
  unfolding jmem_heap_alloc_block_internal_fast_def
  by (auto simp: Let_def JMEM_DECOMPRESS_POINTER_INTERNAL_def
      split: option.splits if_splits dest!: fast_occupancy_frame)

lemma alloc_internalE:
  assumes "jmem_heap_alloc_block_internal cfg sz small s = Some (p, s')"
  obtains s1 s2 where
    "(if aligned cfg sz = JMEM_ALIGNMENT cfg \<and> next_offset (first s) \<noteq> JMEM_HEAP_END_OF_LIST cfg
      then jmem_heap_alloc_block_internal_fast cfg small s
      else jmem_heap_alloc_block_internal_slow cfg (aligned cfg sz) small s) = Some (p, s1)"
    "raise_heap_limit cfg s1 = Some s2"
    "s' = (if p = None then s2 else jmem_heap_stat_alloc cfg sz s2)"
  using assms
  by (auto simp: jmem_heap_alloc_block_internal_def Let_def split: option.splits if_splits)

lemma alloc_internal_blocks:
  assumes "jmem_heap_alloc_block_internal cfg sz small s = Some (p, s')"
  shows "jmem_heap_blocks_size s' = (if p = None then jmem_heap_blocks_size s else jmem_heap_blocks_size s + aligned cfg sz)"
proof -
  from assms obtain s1 s2 where
    a: "(if aligned cfg sz = JMEM_ALIGNMENT cfg \<and> next_offset (first s) \<noteq> JMEM_HEAP_END_OF_LIST cfg
      then jmem_heap_alloc_block_internal_fast cfg small s
      else jmem_heap_alloc_block_internal_slow cfg (aligned cfg sz) small s) = Some (p, s1)"
    and r: "raise_heap_limit cfg s1 = Some s2"
    and e: "s' = (if p = None then s2 else jmem_heap_stat_alloc cfg sz s2)"
    by (rule alloc_internalE)
  from raise_heap_limit_frame[OF r] e have "jmem_heap_blocks_size s' = jmem_heap_blocks_size s1"
    by auto
  moreover from a have "jmem_heap_blocks_size s1 = (if p = None then jmem_heap_blocks_size s else jmem_heap_blocks_size s + aligned cfg sz)"
    by (auto simp: jmem_heap_alloc_block_internal_slow_def split: if_splits dest!: fast_blocks slow_loop_blocks)
  ultimately show ?thesis by simp
qed

subsection \<open>The slow path on a list\<close>

lemma add_alloc_iter_fields [simp]:
  "first (add_alloc_iter n s) = first s"
  "area (add_alloc_iter n s) = area s"
  "segments (add_alloc_iter n s) = segments s"
  "jmem_heap_list_skip_p (add_alloc_iter n s) = jmem_heap_list_skip_p s"
  "jmem_heap_blocks_size (add_alloc_iter n s) = jmem_heap_blocks_size s"
  "jmem_heap_allocated_blocks_count (add_alloc_iter n s) = jmem_heap_allocated_blocks_count s"
  "jmem_heap_limit (add_alloc_iter n s) = jmem_heap_limit s"
  by (simp_all add: add_alloc_iter_def)

lemma add_alloc_iter_step [simp]:
  "add_alloc_iter n (s\<lparr>jmem_heap_stats := (jmem_heap_stats s)\<lparr>alloc_iter_count :=
      alloc_iter_count (jmem_heap_stats s) + 1\<rparr>\<rparr>) = add_alloc_iter (Suc n) s"
  by (simp add: add_alloc_iter_def add.commute add.left_commute)

lemma add_alloc_iter_0 [simp]: "add_alloc_iter 0 s = s"
  by (simp add: add_alloc_iter_def)

lemma slow_loop_no_fit:
  "is_list cfg (area s) cur xs \<Longrightarrow> no_fit s req xs \<Longrightarrow>
     slow_loop cfg req cur prev s = Some (None, add_alloc_iter (length xs) s)"
proof (induction xs arbitrary: cur prev s)
  case Nil
  then show ?case by (subst slow_loop.simps) simp
next
  case (Cons x xs)
  let ?s1 = "jmem_heap_stat_alloc_iter s"
  from Cons.prems have c: "cur = x" "x \<noteq> JMEM_HEAP_END_OF_LIST cfg" "\<not> req \<le> size_f (area s x)"
    and l: "is_list cfg (area ?s1) (next_offset (area s x)) xs" and n: "no_fit ?s1 req xs"
    by (auto simp: no_fit_def)
  have "slow_loop cfg req cur prev s = slow_loop cfg req (next_offset (area s x)) (AREA x) ?s1"
    using c by (subst slow_loop.simps) (simp add: Let_def JMEM_DECOMPRESS_POINTER_INTERNAL_def)
  also have "\<dots> = Some (None, add_alloc_iter (length xs) ?s1)"
    by (rule Cons.IH[OF l n])
  finally show ?case by simp
qed

lemma slow_loop_fit:
  "is_list cfg (area s) cur (ys @ x # zs) \<Longrightarrow> no_fit s req ys \<Longrightarrow> req \<le> size_f (area s x) \<Longrightarrow>
     slow_loop cfg req cur prev s =
       map_option (\<lambda>s'. (Some (AREA x), s'))
         (slow_take cfg req x (last (prev # map AREA ys)) (next_offset (area s x))
            (add_alloc_iter (Suc (length ys)) s))"
proof (induction ys arbitrary: cur prev s)
  case Nil
  then show ?case
    by (subst slow_loop.simps)
       (simp add: Let_def JMEM_DECOMPRESS_POINTER_INTERNAL_def add_alloc_iter_def)
next
  case (Cons y ys)
  let ?s1 = "jmem_heap_stat_alloc_iter s"
  from Cons.prems have c: "cur = y" "y \<noteq> JMEM_HEAP_END_OF_LIST cfg" "\<not> req \<le> size_f (area s y)"
    and l: "is_list cfg (area ?s1) (next_offset (area s y)) (ys @ x # zs)" and n: "no_fit ?s1 req ys"
    and f: "req \<le> size_f (area ?s1 x)"
    by (auto simp: no_fit_def)
  have "slow_loop cfg req cur prev s = slow_loop cfg req (next_offset (area s y)) (AREA y) ?s1"
    using c by (subst slow_loop.simps) (simp add: Let_def JMEM_DECOMPRESS_POINTER_INTERNAL_def)
  also note Cons.IH[OF l n f]
  finally show ?case by simp
qed

subsection \<open>The allocation loop on an exhausted heap\<close>



lemma failed_alloc_frame:
  assumes "free_list cfg s xs" and "no_fit s (aligned cfg sz) xs"
    and "aligned cfg sz = JMEM_ALIGNMENT cfg \<longrightarrow> xs = []"
    and "CONFIG_MEM_HEAP_DESIRED_LIMIT cfg \<noteq> 0"
    and "unat (jmem_heap_blocks_size s) + unat (CONFIG_MEM_HEAP_DESIRED_LIMIT cfg) < 2 ^ 32"
  shows "\<exists>l. jmem_heap_alloc_block_internal cfg sz small s =
              Some (None, s\<lparr>jmem_heap_limit := l,
                             jmem_heap_stats := (jmem_heap_stats s)\<lparr>alloc_iter_count :=
                               alloc_iter_count (jmem_heap_stats s) + of_nat (length xs)\<rparr>\<rparr>) \<and>
             jmem_heap_limit s \<le> l \<and>
             (jmem_heap_blocks_size s < jmem_heap_limit s \<longrightarrow> l = jmem_heap_limit s)"
proof -
  let ?s1 = "add_alloc_iter (length xs) s"
  have slow: "\<not> (aligned cfg sz = JMEM_ALIGNMENT cfg \<and> next_offset (first s) \<noteq> JMEM_HEAP_END_OF_LIST cfg)"
    using assms(1,3) by (auto simp: free_list_def)
  have w: "jmem_heap_alloc_block_internal_slow cfg (aligned cfg sz) small s = Some (None, ?s1)"
    unfolding jmem_heap_alloc_block_internal_slow_def
    using assms(1,2) by (intro slow_loop_no_fit) (simp_all add: free_list_def)
  from raise_heap_limit_total[of cfg ?s1] assms(4,5)
  obtain l where l: "raise_heap_limit cfg ?s1 = Some (?s1\<lparr>jmem_heap_limit := l\<rparr>)"
    "jmem_heap_limit s \<le> l" "jmem_heap_blocks_size s < jmem_heap_limit s \<longrightarrow> l = jmem_heap_limit s"
    by auto
  have "jmem_heap_alloc_block_internal cfg sz small s = Some (None, ?s1\<lparr>jmem_heap_limit := l\<rparr>)"
    unfolding jmem_heap_alloc_block_internal_def Let_def if_not_P[OF slow] w
    using l(1) by simp
  with l(2,3) show ?thesis
    by (intro exI[of _ l]) (simp add: add_alloc_iter_def)
qed







lemma no_fit_split:
  assumes "\<not> no_fit s n xs"
  shows "\<exists>ys x zs. xs = ys @ x # zs \<and> no_fit s n ys \<and> n \<le> size_f (area s x)"
proof -
  from assms have "\<exists>x\<in>set xs. \<not> size_f (area s x) < n"
    by (simp add: no_fit_def list_all_iff)
  from split_list_first_prop[OF this] obtain ys x zs where
    "xs = ys @ x # zs" "\<not> size_f (area s x) < n" "\<forall>y\<in>set ys. size_f (area s y) < n"
    by auto
  then show ?thesis
    by (intro exI[of _ ys] exI[of _ x] exI[of _ zs]) (simp add: no_fit_def list_all_iff not_less)
qed


subsection \<open>The walk over the segments\<close>

lemma unat_of_nat32: "n < 2 ^ 32 \<Longrightarrow> unat (of_nat n :: 32 word) = n"
  by (simp add: unat_of_nat)

lemma sless_of_nat32:
  assumes "n < 2 ^ 31"
  shows "(0 <s (of_nat n :: 32 word)) \<longleftrightarrow> 0 < n"
proof -
  have "sint (of_nat n :: 32 word) = int n"
  proof -
    have "uint (of_nat n :: 32 word) = int n"
      using assms by (simp add: uint_nat unat_of_nat32)
    then have "sint (of_nat n :: 32 word) = signed_take_bit 31 (int n)"
      by (simp add: sint_uint)
    also have "\<dots> = int n"
      using assms by (intro signed_take_bit_int_eq_self) simp_all
    finally show ?thesis .
  qed
  then show ?thesis by (simp add: word_sless_alt)
qed

lemma of_nat_less32:
  "a < 2 ^ 32 \<Longrightarrow> b < 2 ^ 32 \<Longrightarrow> ((of_nat a :: 32 word) < of_nat b) \<longleftrightarrow> a < b"
  by (simp add: word_less_nat_alt unat_of_nat32)

lemma of_nat_div32:
  "a < 2 ^ 32 \<Longrightarrow> (of_nat a :: 32 word) div w = of_nat (a div unat w)"
proof -
  assume a: "a < 2 ^ 32"
  have "a div unat w < 2 ^ 32"
    using a by (meson div_le_dividend le_less_trans)
  then have "unat (of_nat a div w) = unat (of_nat (a div unat w) :: 32 word)"
    using a by (simp add: unat_div unat_of_nat32)
  then show ?thesis by (simp only: word_unat_eq_iff)
qed

lemma sum_list_update_word:
  fixes xs :: "('a::len word) list"
  shows "i < length xs \<Longrightarrow> sum_list (xs[i := v]) = sum_list xs - xs ! i + v"
  by (induction xs arbitrary: i) (auto split: nat.splits)


lemma upd_segment_Some:
  "i < length segs \<Longrightarrow> i < 2 ^ 32 \<Longrightarrow>
     upd_segment f (of_nat i) n segs =
       Some (segs[i := (segs ! i)\<lparr>occupied_size := f (occupied_size (segs ! i)) n\<rparr>])"
  by (simp add: upd_segment_def unat_of_nat32)

lemma segment_walk_stop:
  "segment_walk cfg f be 0 fs segs = Some segs"
  by (subst segment_walk.simps) simp

lemma segment_walk_attribute:
  assumes ok: "segments_ok cfg segs"
  shows "fs < E \<Longrightarrow> E \<le> unat (SEG_SEGMENT_SIZE cfg) * length segs \<Longrightarrow>
     unat (JMEM_ALIGNMENT cfg) dvd fs \<Longrightarrow> unat (JMEM_ALIGNMENT cfg) dvd E \<Longrightarrow> length segs' = length segs \<Longrightarrow>
     segment_walk cfg f (of_nat (E - unat (JMEM_ALIGNMENT cfg))) (of_nat (E - fs)) (of_nat fs) segs' =
       Some (attribute cfg f fs E segs')"
proof (induction "E - fs" arbitrary: fs segs' rule: less_induct)
  case less
  let ?S = "unat (SEG_SEGMENT_SIZE cfg)" and ?a = "unat (JMEM_ALIGNMENT cfg)"
  let ?L = "?S * length segs"
  define i where "i = fs div ?S"
  define top where "top = (i + 1) * ?S"
  define fe where "fe = min E top"
  define len where "len = fe - fs"
  from ok have a0: "0 < ?a" and S0: "0 < ?S" and aS: "?a dvd ?S" and L: "?L < 2 ^ 31"
    by (simp_all add: segments_ok_def)
  have L32: "?L < 2 ^ 32" using L by simp
  have aleS: "?a \<le> ?S" using aS S0 by (rule dvd_imp_le)
  have dm: "fs = i * ?S + fs mod ?S"
    unfolding i_def by simp
  have ilo: "i * ?S \<le> fs"
    using dm by linarith
  have ihi: "fs < top"
  proof -
    have "fs mod ?S < ?S" using S0 by simp
    with dm show ?thesis unfolding top_def by simp
  qed
  have i_lt: "i < length segs"
    using less.prems(1,2) S0 unfolding i_def
    by (metis less_le_trans less_mult_imp_div_less mult.commute)
  have topL: "top \<le> ?L"
  proof -
    have "(i + 1) * ?S \<le> length segs * ?S"
      using i_lt by (intro mult_le_mono1) simp
    then show ?thesis unfolding top_def by (simp add: mult.commute)
  qed
  have a_top: "?a dvd top" unfolding top_def using aS by simp
  have a_fe: "?a dvd fe" unfolding fe_def using a_top less.prems(4) by (simp add: min_def)
  have fs_fe: "fs < fe" unfolding fe_def using less.prems(1) ihi by simp
  have a_len: "?a dvd len" unfolding len_def using a_fe less.prems(3) by (rule dvd_diff_nat)
  have len0: "0 < len" unfolding len_def using fs_fe by simp
  have a_le_len: "?a \<le> len" using a_len len0 by (rule dvd_imp_le)
  have feE: "fe \<le> E" and fetop: "fe \<le> top" unfolding fe_def by simp_all
  have "i \<le> i * ?S" using S0 by simp
  then have i_le: "i \<le> fs" using ilo by linarith
  have bounds: "fs < 2 ^ 32" "E < 2 ^ 32" "top < 2 ^ 32" "fe < 2 ^ 32" "i < 2 ^ 32" "E - fs < 2 ^ 31"
    using L less.prems(1,2) topL feE i_le
    by simp_all
  have SEG: "SEG_SEGMENT_SIZE cfg = of_nat ?S" and AL: "JMEM_ALIGNMENT cfg = of_nat ?a"
    by simp_all
  have w0: "0 <s (of_nat (E - fs) :: 32 word)"
    using less.prems(1) by (simp only: sless_of_nat32[OF bounds(6)] zero_less_diff)
  have w1: "(of_nat fs :: 32 word) div SEG_SEGMENT_SIZE cfg = of_nat i"
    using bounds(1) by (simp add: of_nat_div32 i_def)
  have w2: "(of_nat i + 1) * SEG_SEGMENT_SIZE cfg - JMEM_ALIGNMENT cfg = (of_nat (top - ?a) :: 32 word)"
  proof -
    have "?a \<le> top" using aleS unfolding top_def by (simp add: trans_le_add2)
    then have "(of_nat (top - ?a) :: 32 word) = of_nat top - of_nat ?a"
      by (rule of_nat_diff)
    also have "(of_nat top :: 32 word) = (of_nat i + 1) * of_nat ?S"
      unfolding top_def by (simp add: algebra_simps)
    finally show ?thesis by simp
  qed
  have a_le_E: "?a \<le> E"
    using a_le_len feE fs_fe unfolding len_def by arith
  have a_le_top: "?a \<le> top" using a_le_len fetop fs_fe unfolding len_def by arith
  have w3: "((of_nat (E - ?a) :: 32 word) < of_nat (top - ?a)) \<longleftrightarrow> E < top"
    using bounds a_le_E a_le_top by (subst of_nat_less32) auto
  have fend: "(if (of_nat (E - ?a) :: 32 word) < of_nat (top - ?a) then of_nat (E - ?a) else of_nat (top - ?a))
      = (of_nat (fe - ?a) :: 32 word)"
    unfolding w3 fe_def by (simp add: min_def)
  have a_le_fe: "?a \<le> fe" using a_le_len fs_fe unfolding len_def by arith
  have w4: "(of_nat (fe - ?a) :: 32 word) - of_nat fs + JMEM_ALIGNMENT cfg = of_nat len"
  proof -
    have "fs \<le> fe - ?a" using a_le_len fs_fe unfolding len_def by arith
    then have "(of_nat (fe - ?a - fs) :: 32 word) = of_nat (fe - ?a) - of_nat fs"
      by (rule of_nat_diff)
    moreover have "len = (fe - ?a - fs) + ?a"
      using a_le_len fs_fe unfolding len_def by arith
    ultimately show ?thesis
      by (simp only: of_nat_add) simp
  qed
  have w6: "(of_nat (E - fs) :: 32 word) - of_nat len = of_nat (E - fe)"
  proof -
    have "len \<le> E - fs" unfolding len_def using feE fs_fe by arith
    then have "(of_nat (E - fs - len) :: 32 word) = of_nat (E - fs) - of_nat len"
      by (rule of_nat_diff)
    moreover have "E - fs - len = E - fe" unfolding len_def using fs_fe feE by arith
    ultimately show ?thesis by simp
  qed
  have w7: "(of_nat (fe - ?a) :: 32 word) + JMEM_ALIGNMENT cfg = of_nat fe"
  proof -
    have "fe = (fe - ?a) + ?a" using a_le_fe by simp
    then have "(of_nat fe :: 32 word) = of_nat (fe - ?a) + of_nat ?a"
      by (metis of_nat_add)
    then show ?thesis by simp
  qed
  let ?segs1 = "segs'[i := (segs' ! i)\<lparr>occupied_size := f (occupied_size (segs' ! i)) (of_nat len)\<rparr>]"
  have w5: "upd_segment f (of_nat i) (of_nat len) segs' = Some ?segs1"
    using i_lt bounds(5) less.prems(5) by (simp add: upd_segment_Some)
  have step: "segment_walk cfg f (of_nat (E - ?a)) (of_nat (E - fs)) (of_nat fs) segs' =
      segment_walk cfg f (of_nat (E - ?a)) (of_nat (E - fe)) (of_nat fe) ?segs1"
    by (subst segment_walk.simps) (simp only: w0 if_True Let_def w1 w2 fend w4 w5 option.case w6 w7)
  have isect_i: "isect ?S fs E i = len"
    unfolding isect_def len_def fe_def top_def using ilo by (simp add: max_def)
  have isect_lt: "isect ?S fs E j = 0" "isect ?S top E j = 0" if "j < i" for j
  proof -
    from that have "(j + 1) * ?S \<le> i * ?S" by (intro mult_le_mono1) simp
    with ilo ihi show "isect ?S fs E j = 0" "isect ?S top E j = 0"
      unfolding isect_def by (simp_all add: min_def max_def)
  qed
  have isect_gt: "isect ?S fs E j = isect ?S top E j" if "i < j" for j
  proof -
    from that have "top \<le> j * ?S" unfolding top_def by (intro mult_le_mono1) simp
    with ihi show ?thesis unfolding isect_def by (simp add: max_def)
  qed
  have isect_top_i: "isect ?S top E i = 0"
    unfolding isect_def top_def by (simp add: min_def max_def)
  show ?case
  proof (cases "E \<le> top")
    case True
    then have feq: "fe = E" unfolding fe_def by simp
    have "attribute cfg f fs E segs' = ?segs1"
    proof (rule nth_equalityI)
      show "length (attribute cfg f fs E segs') = length ?segs1"
        by (simp add: attribute_def)
    next
      fix j assume "j < length (attribute cfg f fs E segs')"
      then have j: "j < length segs'" by (simp add: attribute_def)
      have gt0: "isect ?S fs E j = 0" if "i < j"
      proof -
        from that have "top \<le> j * ?S" unfolding top_def by (intro mult_le_mono1) simp
        with True show ?thesis unfolding isect_def by (simp add: min_def max_def)
      qed
      show "attribute cfg f fs E segs' ! j = ?segs1 ! j"
        using j isect_i isect_lt(1)[of j] gt0 len0
        by (cases "j = i"; cases "j < i") (simp_all add: attribute_def)
    qed
    with step feq show ?thesis by (simp add: segment_walk_stop)
  next
    case False
    then have feq: "fe = top" and lt: "top < E" unfolding fe_def by simp_all
    have "segment_walk cfg f (of_nat (E - ?a)) (of_nat (E - top)) (of_nat top) ?segs1 =
        Some (attribute cfg f top E ?segs1)"
      using lt ihi less.prems(2,4,5) a_top by (intro less.hyps) simp_all
    moreover have "attribute cfg f top E ?segs1 = attribute cfg f fs E segs'"
    proof (rule nth_equalityI)
      show "length (attribute cfg f top E ?segs1) = length (attribute cfg f fs E segs')"
        by (simp add: attribute_def)
    next
      fix j assume "j < length (attribute cfg f top E ?segs1)"
      then have j: "j < length segs'" by (simp add: attribute_def)
      show "attribute cfg f top E ?segs1 ! j = attribute cfg f fs E segs' ! j"
        using j isect_i isect_lt[of j] isect_gt[of j] isect_top_i len0
        by (cases "j = i"; cases "j < i") (simp_all add: attribute_def)
    qed
    ultimately show ?thesis using step feq by simp
  qed
qed


lemma isect_sum:
  "a \<le> b \<Longrightarrow> sum_list (map (isect S a b) [0..<n]) = min b (n * S) - min a (n * S)"
proof (induction n)
  case 0
  then show ?case by simp
next
  case (Suc n)
  have "sum_list (map (isect S a b) [0..<Suc n]) = sum_list (map (isect S a b) [0..<n]) + isect S a b n"
    by simp
  also have "\<dots> = (min b (n * S) - min a (n * S)) + isect S a b n"
    using Suc by simp
  also have "\<dots> = min b (Suc n * S) - min a (Suc n * S)"
    using Suc.prems unfolding isect_def by (auto simp: min_def max_def algebra_simps)
  finally show ?case .
qed

lemma isect_total:
  "a \<le> b \<Longrightarrow> b \<le> S * n \<Longrightarrow> sum_list (map (isect S a b) [0..<n]) = b - a"
  by (simp add: isect_sum min_def mult.commute)

lemma attribute_length [simp]: "length (attribute cfg f a b segs) = length segs"
  by (simp add: attribute_def)

lemma attribute_empty: "attribute cfg f a a segs = segs"
  by (rule nth_equalityI) (simp_all add: attribute_def isect_def)

lemma of_nat_sum_list_word:
  "(of_nat (sum_list (map g xs)) :: 'a::len word) = sum_list (map (\<lambda>x. of_nat (g x)) xs)"
  by (induction xs) simp_all

lemma attribute_sum_plus:
  assumes "a \<le> b" and "b \<le> unat (SEG_SEGMENT_SIZE cfg) * length segs"
  shows "sum_list (map occupied_size (attribute cfg (+) a b segs)) =
         sum_list (map occupied_size segs) + of_nat (b - a)"
proof -
  let ?S = "unat (SEG_SEGMENT_SIZE cfg)"
  have "map occupied_size (attribute cfg (+) a b segs) =
        map (\<lambda>i. occupied_size (segs ! i) + of_nat (isect ?S a b i)) [0..<length segs]"
    by (simp add: attribute_def)
  then have "sum_list (map occupied_size (attribute cfg (+) a b segs)) =
      sum_list (map (\<lambda>i. occupied_size (segs ! i)) [0..<length segs]) +
      sum_list (map (\<lambda>i. of_nat (isect ?S a b i)) [0..<length segs])"
    by (simp add: sum_list_addf)
  also have "map (\<lambda>i. occupied_size (segs ! i)) [0..<length segs] = map occupied_size segs"
    by (rule nth_equalityI) simp_all
  also have "sum_list (map (\<lambda>i. of_nat (isect ?S a b i)) [0..<length segs]) =
      (of_nat (sum_list (map (isect ?S a b) [0..<length segs])) :: 32 word)"
    by (simp add: of_nat_sum_list_word)
  also have "sum_list (map (isect ?S a b) [0..<length segs]) = b - a"
    using assms by (rule isect_total)
  finally show ?thesis .
qed

lemma attribute_sum_minus:
  assumes "a \<le> b" and "b \<le> unat (SEG_SEGMENT_SIZE cfg) * length segs"
  shows "sum_list (map occupied_size (attribute cfg (-) a b segs)) =
         sum_list (map occupied_size segs) - of_nat (b - a)"
proof -
  let ?S = "unat (SEG_SEGMENT_SIZE cfg)"
  have "map occupied_size (attribute cfg (-) a b segs) =
        map (\<lambda>i. occupied_size (segs ! i) - of_nat (isect ?S a b i)) [0..<length segs]"
    by (simp add: attribute_def)
  then have "sum_list (map occupied_size (attribute cfg (-) a b segs)) =
      sum_list (map (\<lambda>i. occupied_size (segs ! i)) [0..<length segs]) -
      sum_list (map (\<lambda>i. of_nat (isect ?S a b i)) [0..<length segs])"
    by (simp add: sum_list_subtractf)
  also have "map (\<lambda>i. occupied_size (segs ! i)) [0..<length segs] = map occupied_size segs"
    by (rule nth_equalityI) simp_all
  also have "sum_list (map (\<lambda>i. of_nat (isect ?S a b i)) [0..<length segs]) =
      (of_nat (sum_list (map (isect ?S a b) [0..<length segs])) :: 32 word)"
    by (simp add: of_nat_sum_list_word)
  also have "sum_list (map (isect ?S a b) [0..<length segs]) = b - a"
    using assms by (rule isect_total)
  finally show ?thesis .
qed

lemma aligned_dvd: "unat (JMEM_ALIGNMENT cfg) dvd unat (aligned cfg sz)"
proof -
  let ?u = "sz + JMEM_ALIGNMENT cfg - 1" and ?A = "JMEM_ALIGNMENT cfg"
  have "unat (?u div ?A) * unat ?A \<le> unat ?u"
    by (simp add: unat_div)
  also have "\<dots> < 2 ^ 32" using unsigned_less[of ?u] by simp
  finally have "unat (?u div ?A * ?A) = unat (?u div ?A) * unat ?A"
    by (simp add: unat_mult_lem[THEN iffD1])
  then show ?thesis by (simp add: aligned_def)
qed

lemma segment_occupancy_attribute:
  assumes seg: "JMEM_SEGMENTED_HEAP cfg" and ok: "segments_ok cfg (segments s)"
    and blk: "block_in_segments cfg (segments s) (unat b) (unat n)"
  shows "segment_occupancy cfg f b n s =
           Some (s\<lparr>segments := attribute cfg f (unat b) (unat b + unat n) (segments s)\<rparr>)"
proof (cases "n = 0")
  case True
  then show ?thesis
    using seg by (simp add: segment_occupancy_def Let_def segment_walk_stop attribute_empty)
next
  case False
  let ?a = "unat (JMEM_ALIGNMENT cfg)" and ?E = "unat b + unat n"
  from False have n0: "0 < unat n" by (simp add: unat_gt_0)
  from blk have d: "?a dvd unat b" "?a dvd unat n" "?E \<le> unat (SEG_SEGMENT_SIZE cfg) * length (segments s)"
    by (simp_all add: block_in_segments_def)
  have "?a \<le> unat n" using d(2) n0 by (simp add: dvd_imp_le)
  then have aE: "?a \<le> ?E" by simp
  have e: "b + n - JMEM_ALIGNMENT cfg = of_nat (?E - ?a)"
  proof -
    have "(of_nat (?E - ?a) :: 32 word) = of_nat ?E - of_nat ?a"
      using aE by (rule of_nat_diff)
    then show ?thesis by simp
  qed
  have w: "segment_walk cfg f (of_nat (?E - ?a)) (of_nat (?E - unat b)) (of_nat (unat b)) (segments s) =
       Some (attribute cfg f (unat b) ?E (segments s))"
    using n0 d by (intro segment_walk_attribute[OF ok]) simp_all
  show ?thesis
    using seg w unfolding segment_occupancy_def Let_def e by simp
qed

lemma segments_sum_attribute_plus:
  assumes "JMEM_SEGMENTED_HEAP cfg" "segments_ok cfg (segments s)"
    "block_in_segments cfg (segments s) (unat b) (unat n)"
    "segment_occupancy cfg (+) b n s = Some s'"
  shows "segments_sum s' = segments_sum s + n"
proof -
  from assms(3) have le: "unat b + unat n \<le> unat (SEG_SEGMENT_SIZE cfg) * length (segments s)"
    by (simp add: block_in_segments_def)
  from segment_occupancy_attribute[OF assms(1-3), of "(+)"] assms(4)
  have "s' = s\<lparr>segments := attribute cfg (+) (unat b) (unat b + unat n) (segments s)\<rparr>" by simp
  then show ?thesis
    using attribute_sum_plus[of "unat b" "unat b + unat n" cfg "segments s"] le
    by (simp add: segments_sum_def)
qed

lemma segments_sum_attribute_minus:
  assumes "JMEM_SEGMENTED_HEAP cfg" "segments_ok cfg (segments s)"
    "block_in_segments cfg (segments s) (unat b) (unat n)"
    "segment_occupancy cfg (-) b n s = Some s'"
  shows "segments_sum s' = segments_sum s - n"
proof -
  from assms(3) have le: "unat b + unat n \<le> unat (SEG_SEGMENT_SIZE cfg) * length (segments s)"
    by (simp add: block_in_segments_def)
  from segment_occupancy_attribute[OF assms(1-3), of "(-)"] assms(4)
  have "s' = s\<lparr>segments := attribute cfg (-) (unat b) (unat b + unat n) (segments s)\<rparr>" by simp
  then show ?thesis
    using attribute_sum_minus[of "unat b" "unat b + unat n" cfg "segments s"] le
    by (simp add: segments_sum_def)
qed

lemma slow_take_sum:
  assumes "JMEM_SEGMENTED_HEAP cfg" "segments_ok cfg (segments s)"
    "block_in_segments cfg (segments s) (unat cur) (unat req)"
    "slow_take cfg req cur prev nxt s = Some s'"
  shows "segments_sum s' = segments_sum s + req \<and> jmem_heap_blocks_size s' = jmem_heap_blocks_size s + req"
proof -
  let ?s2 = "s\<lparr>jmem_heap_blocks_size := jmem_heap_blocks_size s + req,
                jmem_heap_allocated_blocks_count := jmem_heap_allocated_blocks_count s + 1\<rparr>"
  from assms(4) obtain s3 where o: "segment_occupancy cfg (+) cur req ?s2 = Some s3"
    and e: "segments s' = segments s3"
    unfolding slow_take_def Let_def
    by (cases prev) (auto simp: JMEM_DECOMPRESS_POINTER_INTERNAL_def split: option.splits if_splits)
  from segments_sum_attribute_plus[OF assms(1) _ _ o] assms(2,3)
  have "segments_sum s3 = segments_sum ?s2 + req" by simp
  with e slow_take_blocks[OF assms(4)] show ?thesis
    by (simp add: segments_sum_def)
qed

lemma fast_occupancy_Some_iff:
  "fast_occupancy cfg b s = Some s' \<longleftrightarrow>
     (if JMEM_SEGMENTED_HEAP cfg
      then unat (b div SEG_SEGMENT_SIZE cfg) < length (segments s) \<and>
           s' = s\<lparr>segments := (segments s)[unat (b div SEG_SEGMENT_SIZE cfg) :=
                  (segments s ! unat (b div SEG_SEGMENT_SIZE cfg))\<lparr>occupied_size :=
                     occupied_size (segments s ! unat (b div SEG_SEGMENT_SIZE cfg)) + JMEM_ALIGNMENT cfg\<rparr>]\<rparr>
      else s' = s)"
  by (auto simp: fast_occupancy_def upd_segment_def)

lemma fast_segments:
  assumes "jmem_heap_alloc_block_internal_fast cfg small s = Some (p, s')" "JMEM_SEGMENTED_HEAP cfg"
  shows "unat (next_offset (first s) div SEG_SEGMENT_SIZE cfg) < length (segments s) \<and>
     segments s' = (segments s)[unat (next_offset (first s) div SEG_SEGMENT_SIZE cfg) :=
        (segments s ! unat (next_offset (first s) div SEG_SEGMENT_SIZE cfg))\<lparr>occupied_size :=
           occupied_size (segments s ! unat (next_offset (first s) div SEG_SEGMENT_SIZE cfg)) +
           JMEM_ALIGNMENT cfg\<rparr>]"
  using assms unfolding jmem_heap_alloc_block_internal_fast_def
  by (auto simp: Let_def fast_occupancy_Some_iff JMEM_DECOMPRESS_POINTER_INTERNAL_def
      split: option.splits if_splits)

lemma fast_sum:
  assumes "jmem_heap_alloc_block_internal_fast cfg small s = Some (p, s')" "JMEM_SEGMENTED_HEAP cfg"
  shows "segments_sum s' = segments_sum s + JMEM_ALIGNMENT cfg"
proof -
  let ?i = "unat (next_offset (first s) div SEG_SEGMENT_SIZE cfg)"
  from fast_segments[OF assms] have i: "?i < length (segments s)"
    and s3: "segments s' = (segments s)[?i := (segments s ! ?i)\<lparr>occupied_size :=
        occupied_size (segments s ! ?i) + JMEM_ALIGNMENT cfg\<rparr>]"
    by simp_all
  have "sum_list (map occupied_size (segments s')) =
      sum_list ((map occupied_size (segments s))[?i := occupied_size (segments s ! ?i) + JMEM_ALIGNMENT cfg])"
    by (simp add: s3 map_update)
  also have "\<dots> = sum_list (map occupied_size (segments s)) + JMEM_ALIGNMENT cfg"
    using i by (simp add: sum_list_update_word)
  finally show ?thesis by (simp add: segments_sum_def)
qed

subsection \<open>The allocation returns\<close>

lemma fast_total:
  assumes "JMEM_SEGMENTED_HEAP cfg \<longrightarrow>
     unat (next_offset (first s) div SEG_SEGMENT_SIZE cfg) < length (segments s)"
  shows "\<exists>s1. jmem_heap_alloc_block_internal_fast cfg small s =
           Some (Some (AREA (next_offset (first s))), s1)"
proof -
  let ?s1 = "s\<lparr>jmem_heap_blocks_size := jmem_heap_blocks_size s + JMEM_ALIGNMENT cfg\<rparr>"
  let ?s2 = "?s1\<lparr>jmem_heap_allocated_blocks_count := jmem_heap_allocated_blocks_count ?s1 + 1\<rparr>"
  from assms obtain s3 where o: "fast_occupancy cfg (next_offset (first ?s2)) ?s2 = Some s3"
    by (cases "JMEM_SEGMENTED_HEAP cfg") (simp_all add: fast_occupancy_Some_iff)
  show ?thesis
    unfolding jmem_heap_alloc_block_internal_fast_def Let_def o option.case
      JMEM_DECOMPRESS_POINTER_INTERNAL_def
    by (rule exI) (rule refl)
qed

lemma alloc_after_path:
  assumes D: "CONFIG_MEM_HEAP_DESIRED_LIMIT cfg \<noteq> 0"
    and b: "unat (jmem_heap_blocks_size s1) + unat (CONFIG_MEM_HEAP_DESIRED_LIMIT cfg) < 2 ^ 32"
    and p: "(if aligned cfg sz = JMEM_ALIGNMENT cfg \<and> next_offset (first s) \<noteq> JMEM_HEAP_END_OF_LIST cfg
            then jmem_heap_alloc_block_internal_fast cfg small s
            else jmem_heap_alloc_block_internal_slow cfg (aligned cfg sz) small s) = Some (p, s1)"
  shows "\<exists>l. jmem_heap_alloc_block_internal cfg sz small s =
           Some (p, if p = None then s1\<lparr>jmem_heap_limit := l\<rparr>
                    else jmem_heap_stat_alloc cfg sz (s1\<lparr>jmem_heap_limit := l\<rparr>)) \<and>
         raise_heap_limit cfg s1 = Some (s1\<lparr>jmem_heap_limit := l\<rparr>)"
proof -
  from raise_heap_limit_total[OF D b] obtain l where
    l: "raise_heap_limit cfg s1 = Some (s1\<lparr>jmem_heap_limit := l\<rparr>)" by blast
  show ?thesis
    unfolding jmem_heap_alloc_block_internal_def Let_def p
    by (intro exI[of _ l]) (simp add: l)
qed

subsection \<open>The limit loops, exactly\<close>



lemma lower_heap_limit_steps:
  assumes "CONFIG_MEM_HEAP_DESIRED_LIMIT cfg \<noteq> 0"
    and "unat (jmem_heap_blocks_size s) + unat (CONFIG_MEM_HEAP_DESIRED_LIMIT cfg) < 2 ^ 32"
  shows "\<exists>l. lower_heap_limit cfg s = Some (s\<lparr>jmem_heap_limit := l\<rparr>) \<and>
             lowered_while (unat (CONFIG_MEM_HEAP_DESIRED_LIMIT cfg)) (unat (jmem_heap_limit s))
               (unat (jmem_heap_blocks_size s)) (unat l)"
  using assms
proof (induction "unat (jmem_heap_limit s)" arbitrary: s rule: less_induct)
  case less
  let ?D = "CONFIG_MEM_HEAP_DESIRED_LIMIT cfg"
  let ?b = "jmem_heap_blocks_size s"
  have ub: "unat (?b + ?D) = unat ?b + unat ?D"
    using less.prems(2) by (simp add: unat_add_lem[THEN iffD1])
  have D0: "0 < unat ?D" using less.prems(1) by (simp add: unat_gt_0)
  show ?case
  proof (cases "?b + ?D \<le> jmem_heap_limit s")
    case False
    then have "lower_heap_limit cfg s = Some s"
      by (subst lower_heap_limit.simps) simp
    moreover from False ub have "unat (jmem_heap_limit s) < unat ?b + unat ?D"
      by (simp add: word_le_nat_alt)
    ultimately show ?thesis
      by (intro exI[of _ "jmem_heap_limit s"]) (simp add: lowered_while_def)
  next
    case True
    then have le: "unat ?b + unat ?D \<le> unat (jmem_heap_limit s)"
      using ub by (simp add: word_le_nat_alt)
    then have dle: "?D \<le> jmem_heap_limit s"
      by (simp add: word_le_nat_alt)
    have us: "unat (jmem_heap_limit s - ?D) = unat (jmem_heap_limit s) - unat ?D"
      using dle by (simp add: unat_sub)
    let ?s = "s\<lparr>jmem_heap_limit := jmem_heap_limit s - ?D\<rparr>"
    have step: "lower_heap_limit cfg s = lower_heap_limit cfg ?s"
      using True by (subst lower_heap_limit.simps) simp
    have "\<exists>l. lower_heap_limit cfg ?s = Some (?s\<lparr>jmem_heap_limit := l\<rparr>) \<and>
             lowered_while (unat ?D) (unat (jmem_heap_limit ?s)) (unat (jmem_heap_blocks_size ?s)) (unat l)"
      using less.prems le D0 us by (intro less.hyps) simp_all
    then obtain l where l: "lower_heap_limit cfg ?s = Some (?s\<lparr>jmem_heap_limit := l\<rparr>)"
      and r: "lowered_while (unat ?D) (unat (jmem_heap_limit s) - unat ?D) (unat ?b) (unat l)"
      using us by auto
    from r have r1: "unat l \<le> unat (jmem_heap_limit s) - unat ?D"
      and r2: "unat ?D dvd unat (jmem_heap_limit s) - unat ?D - unat l"
      and r3: "unat l < unat ?b + unat ?D"
      and r4: "unat l = unat (jmem_heap_limit s) - unat ?D \<or> unat ?b \<le> unat l"
      by (simp_all add: lowered_while_def)
    have "unat (jmem_heap_limit s) - unat l = (unat (jmem_heap_limit s) - unat ?D - unat l) + unat ?D"
      using r1 le by simp
    with r2 have d: "unat ?D dvd unat (jmem_heap_limit s) - unat l" by simp
    from r4 le have "unat ?b \<le> unat l" by auto
    with r1 r3 d have "lowered_while (unat ?D) (unat (jmem_heap_limit s)) (unat ?b) (unat l)"
      by (simp add: lowered_while_def)
    with l step show ?thesis
      by (intro exI[of _ l]) simp
  qed
qed




subsection \<open>The last attempt of a public allocation\<close>








subsection \<open>The allocation loop when every attempt fails\<close>







subsection \<open>The block on its segments\<close>

lemma dvd_less_step:
  fixes m n A :: nat
  assumes "A dvd m" "A dvd n" "m < n" "0 < A"
  shows "m + A \<le> n"
proof -
  from assms(1) obtain x where x: "m = A * x" by (auto elim: dvdE)
  from assms(2) obtain y where y: "n = A * y" by (auto elim: dvdE)
  from assms(3,4) x y have "x < y" by simp
  then have "x + 1 \<le> y" by simp
  then have "A * (x + 1) \<le> A * y" by (rule mult_le_mono2)
  with x y show ?thesis by simp
qed

lemma isect_granule:
  assumes S: "0 < S" and A: "A dvd S" "A dvd a" "0 < A"
  shows "isect S a (a + A) i = (if i = a div S then A else 0)"
proof -
  let ?k = "a div S"
  have lo: "?k * S \<le> a" by simp
  have "a mod S < S" using S by simp
  moreover have "?k * S + a mod S = a" by (rule div_mult_mod_eq)
  moreover have "(?k + 1) * S = ?k * S + S" by simp
  ultimately have hi: "a < (?k + 1) * S" by linarith
  have "A dvd (?k + 1) * S" using A(1) by simp
  from dvd_less_step[OF A(2) this hi A(3)] have up: "a + A \<le> (?k + 1) * S" .
  show ?thesis
  proof (cases "i = ?k")
    case True
    from lo have "max a (?k * S) = a" by (rule max_absorb1)
    moreover from up have "min (a + A) ((?k + 1) * S) = a + A" by (rule min_absorb1)
    ultimately have "isect S a (a + A) ?k = A" unfolding isect_def by simp
    with True show ?thesis by simp
  next
    case False
    then consider "i < ?k" | "?k < i" by linarith
    then show ?thesis
    proof cases
      case 1
      then have "(i + 1) * S \<le> ?k * S" by (intro mult_le_mono1) simp
      with lo have "(i + 1) * S \<le> a" by linarith
      then have "min (a + A) ((i + 1) * S) \<le> max a (i * S)" by simp
      then have "isect S a (a + A) i = 0" unfolding isect_def by simp
      with False show ?thesis by simp
    next
      case 2
      then have "(?k + 1) * S \<le> i * S" by (intro mult_le_mono1) simp
      with up have "a + A \<le> i * S" by linarith
      then have "min (a + A) ((i + 1) * S) \<le> max a (i * S)" by simp
      then have "isect S a (a + A) i = 0" unfolding isect_def by simp
      with False show ?thesis by simp
    qed
  qed
qed

lemma attribute_granule:
  assumes ok: "segments_ok cfg segs"
    and al: "unat (JMEM_ALIGNMENT cfg) dvd a"
    and i: "a div unat (SEG_SEGMENT_SIZE cfg) < length segs"
  shows "attribute cfg f a (a + unat (JMEM_ALIGNMENT cfg)) segs =
           segs[a div unat (SEG_SEGMENT_SIZE cfg) :=
             (segs ! (a div unat (SEG_SEGMENT_SIZE cfg)))\<lparr>occupied_size :=
                f (occupied_size (segs ! (a div unat (SEG_SEGMENT_SIZE cfg)))) (JMEM_ALIGNMENT cfg)\<rparr>]"
proof (rule nth_equalityI)
  show "length (attribute cfg f a (a + unat (JMEM_ALIGNMENT cfg)) segs) =
        length (segs[a div unat (SEG_SEGMENT_SIZE cfg) :=
             (segs ! (a div unat (SEG_SEGMENT_SIZE cfg)))\<lparr>occupied_size :=
                f (occupied_size (segs ! (a div unat (SEG_SEGMENT_SIZE cfg)))) (JMEM_ALIGNMENT cfg)\<rparr>])"
    by simp
next
  fix j assume "j < length (attribute cfg f a (a + unat (JMEM_ALIGNMENT cfg)) segs)"
  then have j: "j < length segs" by simp
  from ok have S: "0 < unat (SEG_SEGMENT_SIZE cfg)" and A: "0 < unat (JMEM_ALIGNMENT cfg)"
    and d: "unat (JMEM_ALIGNMENT cfg) dvd unat (SEG_SEGMENT_SIZE cfg)"
    by (simp_all add: segments_ok_def)
  have g1: "isect (unat (SEG_SEGMENT_SIZE cfg)) a (a + unat (JMEM_ALIGNMENT cfg))
      (a div unat (SEG_SEGMENT_SIZE cfg)) = unat (JMEM_ALIGNMENT cfg)"
    using isect_granule[OF S d al A, of "a div unat (SEG_SEGMENT_SIZE cfg)"] by simp
  have g2: "j \<noteq> a div unat (SEG_SEGMENT_SIZE cfg) \<Longrightarrow>
      isect (unat (SEG_SEGMENT_SIZE cfg)) a (a + unat (JMEM_ALIGNMENT cfg)) j = 0"
    using isect_granule[OF S d al A, of j] by simp
  show "attribute cfg f a (a + unat (JMEM_ALIGNMENT cfg)) segs ! j =
        segs[a div unat (SEG_SEGMENT_SIZE cfg) :=
             (segs ! (a div unat (SEG_SEGMENT_SIZE cfg)))\<lparr>occupied_size :=
                f (occupied_size (segs ! (a div unat (SEG_SEGMENT_SIZE cfg)))) (JMEM_ALIGNMENT cfg)\<rparr>] ! j"
    using j A by (cases "j = a div unat (SEG_SEGMENT_SIZE cfg)") (simp_all add: attribute_def g1 g2)
qed

lemma slow_take_segments:
  assumes seg: "JMEM_SEGMENTED_HEAP cfg" and ok: "segments_ok cfg (segments s)"
    and blk: "block_in_segments cfg (segments s) (unat cur) (unat req)"
  shows "\<exists>s'. slow_take cfg req cur prev nxt s = Some s' \<and>
           segments s' = attribute cfg (+) (unat cur) (unat cur + unat req) (segments s) \<and>
           jmem_heap_blocks_size s' = jmem_heap_blocks_size s + req"
proof -
  let ?s1 = "s\<lparr>jmem_heap_blocks_size := jmem_heap_blocks_size s + req\<rparr>"
  let ?s2 = "?s1\<lparr>jmem_heap_allocated_blocks_count := jmem_heap_allocated_blocks_count ?s1 + 1\<rparr>"
  let ?s3 = "?s2\<lparr>segments := attribute cfg (+) (unat cur) (unat cur + unat req) (segments ?s2)\<rparr>"
  have o: "segment_occupancy cfg (+) cur req ?s2 = Some ?s3"
    by (rule segment_occupancy_attribute[OF seg]) (use ok blk in simp_all)
  have "\<exists>s'. slow_take cfg req cur prev nxt s = Some s' \<and> segments s' = segments ?s3 \<and>
           jmem_heap_blocks_size s' = jmem_heap_blocks_size ?s3"
    unfolding slow_take_def Let_def o option.case
    by (cases prev) (simp_all add: JMEM_DECOMPRESS_POINTER_INTERNAL_def)
  then show ?thesis by simp
qed

subsection \<open>The free returns\<close>

lemma free_walk_list:
  assumes "is_list cfg (area s) (next_offset (rd s start)) ys" "b \<le> JMEM_HEAP_END_OF_LIST cfg"
  shows "\<exists>st. free_walk b start s =
           Some (last (start # map AREA (takeWhile (\<lambda>x. x < b) ys)), s\<lparr>jmem_heap_stats := st\<rparr>)"
  using assms
proof (induction ys arbitrary: start s)
  case Nil
  then have "\<not> next_offset (rd s start) < b" by auto
  then have "free_walk b start s = Some (start, s\<lparr>jmem_heap_stats := jmem_heap_stats s\<rparr>)"
    by (subst free_walk.simps) simp
  then show ?case by (intro exI[of _ "jmem_heap_stats s"]) simp
next
  case (Cons x zs)
  then have nx: "next_offset (rd s start) = x" and l: "is_list cfg (area s) (next_offset (area s x)) zs"
    by auto
  show ?case
  proof (cases "x < b")
    case True
    let ?s = "jmem_heap_stat_free_iter s"
    from l have "is_list cfg (area ?s) (next_offset (rd ?s (AREA x))) zs" by simp
    from Cons.IH[OF this Cons.prems(2)] obtain st where
      "free_walk b (AREA x) ?s = Some (last (AREA x # map AREA (takeWhile (\<lambda>x. x < b) zs)), ?s\<lparr>jmem_heap_stats := st\<rparr>)"
      by blast
    then have "free_walk b start s =
       Some (last (start # map AREA (takeWhile (\<lambda>x. x < b) (x # zs))), s\<lparr>jmem_heap_stats := st\<rparr>)"
      using True nx by (subst free_walk.simps) (simp add: JMEM_DECOMPRESS_POINTER_INTERNAL_def)
    then show ?thesis by blast
  next
    case False
    then have "free_walk b start s = Some (start, s\<lparr>jmem_heap_stats := jmem_heap_stats s\<rparr>)"
      using nx by (subst free_walk.simps) simp
    then show ?thesis using False by (intro exI[of _ "jmem_heap_stats s"]) simp
  qed
qed

lemma is_list_suffix:
  "is_list cfg m p xs \<Longrightarrow> k \<in> set xs \<Longrightarrow> \<exists>ys. is_list cfg m (next_offset (m k)) ys"
  by (induction xs arbitrary: p) auto

lemma free_body_total:
  assumes fl: "free_list cfg s xs"
    and sk: "jmem_heap_list_skip_p s = FIRST \<or> (\<exists>k\<in>set xs. jmem_heap_list_skip_p s = AREA k)"
    and le: "ptr \<le> JMEM_HEAP_END_OF_LIST cfg"
    and sg: "JMEM_SEGMENTED_HEAP cfg \<longrightarrow> segments_ok cfg (segments s) \<and>
               block_in_segments cfg (segments s) (unat ptr) (unat (aligned cfg sz))"
    and D: "CONFIG_MEM_HEAP_DESIRED_LIMIT cfg \<noteq> 0"
    and b: "unat (jmem_heap_blocks_size s - aligned cfg sz) + unat (CONFIG_MEM_HEAP_DESIRED_LIMIT cfg) < 2 ^ 32"
  shows "\<exists>s'. free_body cfg ptr sz s = Some s'"
proof -
  let ?n = "aligned cfg sz"
  let ?s1 = "jmem_heap_stat_free_iter s"
  let ?ok = "case jmem_heap_list_skip_p ?s1 of
               AREA skip_offset \<Rightarrow>
                 (if JMEM_SEGMENTED_HEAP cfg then ptr > skip_offset
                  else area_address cfg + ptr > area_address cfg + skip_offset)
             | FIRST \<Rightarrow> block_after_first cfg ptr"
  let ?w = "if ?ok then free_walk ptr (jmem_heap_list_skip_p ?s1) (jmem_heap_stat_skip ?s1)
            else free_walk ptr FIRST (jmem_heap_stat_nonskip ?s1)"
  have W: "\<exists>prev s2. free_walk ptr start t = Some (prev, s2)"
    if "start = FIRST \<or> start = jmem_heap_list_skip_p s" "area t = area s" "first t = first s" for start t
  proof -
    have "\<exists>ys. is_list cfg (area t) (next_offset (rd t start)) ys"
    proof (cases start)
      case FIRST
      with fl that(2,3) show ?thesis by (auto simp: free_list_def)
    next
      case (AREA k)
      with that(1) sk have "k \<in> set xs" by auto
      from is_list_suffix[OF fl[unfolded free_list_def] this] AREA that(2) show ?thesis by simp
    qed
    then obtain ys where "is_list cfg (area t) (next_offset (rd t start)) ys" ..
    from free_walk_list[OF this le] show ?thesis by blast
  qed
  have "\<exists>prev s2. ?w = Some (prev, s2)"
  proof (cases ?ok)
    case True
    then show ?thesis using W[of "jmem_heap_list_skip_p s" "jmem_heap_stat_skip ?s1"] by simp
  next
    case False
    then show ?thesis using W[of FIRST "jmem_heap_stat_nonskip ?s1"] by simp
  qed
  then obtain prev s2 where w: "?w = Some (prev, s2)" by blast
  have "\<exists>st2. s2 = s\<lparr>jmem_heap_stats := st2\<rparr>"
  proof (cases ?ok)
    case True
    with w have "free_walk ptr (jmem_heap_list_skip_p ?s1) (jmem_heap_stat_skip ?s1) = Some (prev, s2)" by simp
    from free_walk_frame[OF this] show ?thesis by auto
  next
    case False
    with w have "free_walk ptr FIRST (jmem_heap_stat_nonskip ?s1) = Some (prev, s2)" by simp
    from free_walk_frame[OF this] show ?thesis by auto
  qed
  then obtain st2 where s2: "s2 = s\<lparr>jmem_heap_stats := st2\<rparr>" ..
  let ?s3 = "free_link ptr ?n prev s2"
  have g3: "segments ?s3 = segments s" "jmem_heap_blocks_size ?s3 = jmem_heap_blocks_size s"
    by (simp_all add: s2)
  have "\<exists>s4. segment_occupancy cfg (-) ptr ?n ?s3 = Some s4"
  proof (cases "JMEM_SEGMENTED_HEAP cfg")
    case True
    with sg g3 have "segments_ok cfg (segments ?s3)"
      "block_in_segments cfg (segments ?s3) (unat ptr) (unat ?n)" by simp_all
    from segment_occupancy_attribute[OF True this, of "(-)"] show ?thesis by blast
  next
    case False
    then show ?thesis by (simp add: segment_occupancy_def)
  qed
  then obtain s4 where o: "segment_occupancy cfg (-) ptr ?n ?s3 = Some s4" ..
  from segment_occupancy_frame[OF o] g3 have b4: "jmem_heap_blocks_size s4 = jmem_heap_blocks_size s"
    by auto
  let ?s5 = "s4\<lparr>jmem_heap_blocks_size := jmem_heap_blocks_size s4 - ?n\<rparr>"
  let ?s6 = "?s5\<lparr>jmem_heap_allocated_blocks_count := jmem_heap_allocated_blocks_count ?s5 - 1\<rparr>"
  have "unat (jmem_heap_blocks_size ?s6) + unat (CONFIG_MEM_HEAP_DESIRED_LIMIT cfg) < 2 ^ 32"
    using b b4 by simp
  from lower_heap_limit_steps[OF D this] obtain l where
    l: "lower_heap_limit cfg ?s6 = Some (?s6\<lparr>jmem_heap_limit := l\<rparr>)" by blast
  show ?thesis
    unfolding free_body_def Let_def w option.case prod.case o l
    by simp
qed

subsection \<open>The allocation on the segmented heap\<close>

lemma alloc_segments:
  assumes seg: "JMEM_SEGMENTED_HEAP cfg" and ok: "segments_ok cfg (segments s)"
    and D: "CONFIG_MEM_HEAP_DESIRED_LIMIT cfg \<noteq> 0"
    and b: "unat (jmem_heap_blocks_size s) + unat (aligned cfg sz) +
            unat (CONFIG_MEM_HEAP_DESIRED_LIMIT cfg) < 2 ^ 32"
    and fl: "free_list cfg s xs"
    and blk: "\<forall>x\<in>set xs. block_in_segments cfg (segments s) (unat x) (unat (size_f (area s x))) \<and>
               0 < unat (size_f (area s x))"
  shows "\<exists>p s'. jmem_heap_alloc_block_internal cfg sz small s = Some (p, s') \<and>
     (case p of
        None \<Rightarrow> segments s' = segments s \<and> jmem_heap_blocks_size s' = jmem_heap_blocks_size s
      | Some q \<Rightarrow>
          (\<exists>a\<in>set xs. q = AREA a \<and>
             block_in_segments cfg (segments s) (unat a) (unat (aligned cfg sz)) \<and>
             segments s' = attribute cfg (+) (unat a) (unat a + unat (aligned cfg sz)) (segments s)) \<and>
          jmem_heap_blocks_size s' = jmem_heap_blocks_size s + aligned cfg sz)"
proof -
  let ?n = "aligned cfg sz"
  let ?c = "?n = JMEM_ALIGNMENT cfg \<and> next_offset (first s) \<noteq> JMEM_HEAP_END_OF_LIST cfg"
  let ?path = "if ?c then jmem_heap_alloc_block_internal_fast cfg small s
               else jmem_heap_alloc_block_internal_slow cfg ?n small s"
  let ?Q = "\<lambda>p s'. (case p of
        None \<Rightarrow> segments s' = segments s \<and> jmem_heap_blocks_size s' = jmem_heap_blocks_size s
      | Some q \<Rightarrow>
          (\<exists>a\<in>set xs. q = AREA a \<and>
             block_in_segments cfg (segments s) (unat a) (unat ?n) \<and>
             segments s' = attribute cfg (+) (unat a) (unat a + unat ?n) (segments s)) \<and>
          jmem_heap_blocks_size s' = jmem_heap_blocks_size s + ?n)"
  have "\<exists>p s1. ?path = Some (p, s1) \<and> ?Q p s1"
  proof (cases ?c)
    case True
    let ?x = "next_offset (first s)"
    let ?S = "unat (SEG_SEGMENT_SIZE cfg)"
    from fl True have x: "?x \<in> set xs" by (cases xs) (auto simp: free_list_def)
    with blk have bx: "block_in_segments cfg (segments s) (unat ?x) (unat (size_f (area s ?x)))"
      and px: "0 < unat (size_f (area s ?x))" by auto
    from bx px have "unat ?x < length (segments s) * ?S"
      by (simp add: block_in_segments_def mult.commute)
    then have i: "unat ?x div ?S < length (segments s)"
      by (rule less_mult_imp_div_less)
    have ud: "unat (?x div SEG_SEGMENT_SIZE cfg) = unat ?x div ?S" by (rule unat_div)
    from i ud have "JMEM_SEGMENTED_HEAP cfg \<longrightarrow>
        unat (?x div SEG_SEGMENT_SIZE cfg) < length (segments s)" by simp
    from fast_total[OF this] obtain s1 where
      f: "jmem_heap_alloc_block_internal_fast cfg small s = Some (Some (AREA ?x), s1)" by blast
    from bx have al: "unat (JMEM_ALIGNMENT cfg) dvd unat ?x" by (simp add: block_in_segments_def)
    from fast_segments[OF f seg] attribute_granule[OF ok al i, of "(+)"] ud True
    have "segments s1 = attribute cfg (+) (unat ?x) (unat ?x + unat ?n) (segments s)" by simp
    moreover from fast_blocks[OF f] True have "jmem_heap_blocks_size s1 = jmem_heap_blocks_size s + ?n"
      by simp
    moreover have "block_in_segments cfg (segments s) (unat ?x) (unat ?n)"
    proof -
      from bx have "unat (JMEM_ALIGNMENT cfg) dvd unat (size_f (area s ?x))"
        by (simp add: block_in_segments_def)
      with px have "unat (JMEM_ALIGNMENT cfg) \<le> unat (size_f (area s ?x))" by (simp add: dvd_imp_le)
      with bx True show ?thesis by (simp add: block_in_segments_def)
    qed
    ultimately have "?Q (Some (AREA ?x)) s1" using x by simp
    with f True show ?thesis by (intro exI[of _ "Some (AREA ?x)"] exI[of _ s1]) simp
  next
    case False
    show ?thesis
    proof (cases "no_fit s ?n xs")
      case True
      from slow_loop_no_fit[of cfg s "next_offset (first s)" xs ?n FIRST] fl True
      have "jmem_heap_alloc_block_internal_slow cfg ?n small s = Some (None, add_alloc_iter (length xs) s)"
        by (simp add: free_list_def jmem_heap_alloc_block_internal_slow_def)
      with False show ?thesis
        by (intro exI[of _ None] exI[of _ "add_alloc_iter (length xs) s"]) (simp add: if_not_P)
    next
      case nf: False
      from no_fit_split[OF nf] obtain ys x zs where
        xs: "xs = ys @ x # zs" "no_fit s ?n ys" "?n \<le> size_f (area s x)" by blast
      let ?s0 = "add_alloc_iter (Suc (length ys)) s"
      from blk xs(1) have bx: "block_in_segments cfg (segments s) (unat x) (unat (size_f (area s x)))"
        by simp
      have "unat ?n \<le> unat (size_f (area s x))"
        using xs(3) by (simp add: word_le_nat_alt)
      with bx have b0: "block_in_segments cfg (segments ?s0) (unat x) (unat ?n)"
        by (simp add: block_in_segments_def aligned_dvd)
      have ok0: "segments_ok cfg (segments ?s0)" using ok by simp
      from slow_take_segments[OF seg ok0 b0, of "last (FIRST # map AREA ys)" "next_offset (area s x)"]
      obtain s1 where t: "slow_take cfg ?n x (last (FIRST # map AREA ys)) (next_offset (area s x)) ?s0 = Some s1"
        and g: "segments s1 = attribute cfg (+) (unat x) (unat x + unat ?n) (segments s)"
          "jmem_heap_blocks_size s1 = jmem_heap_blocks_size s + ?n"
        by auto
      have "jmem_heap_alloc_block_internal_slow cfg ?n small s = Some (Some (AREA x), s1)"
        unfolding jmem_heap_alloc_block_internal_slow_def
        using slow_loop_fit[of cfg s "next_offset (first s)" ys x zs ?n FIRST] fl xs t
        by (simp add: free_list_def)
      moreover have "?Q (Some (AREA x)) s1" using g xs(1) b0 by simp
      ultimately show ?thesis using False
        by (intro exI[of _ "Some (AREA x)"] exI[of _ s1]) (simp add: if_not_P)
    qed
  qed
  then obtain p s1 where a: "?path = Some (p, s1)" and q: "?Q p s1" by blast
  have "unat (jmem_heap_blocks_size s1) \<le> unat (jmem_heap_blocks_size s) + unat ?n"
    using q b by (cases p) (auto simp: unat_add_lem[THEN iffD1])
  with b have b1: "unat (jmem_heap_blocks_size s1) + unat (CONFIG_MEM_HEAP_DESIRED_LIMIT cfg) < 2 ^ 32"
    by simp
  from alloc_after_path[OF D b1 a] obtain l where
    e: "jmem_heap_alloc_block_internal cfg sz small s =
           Some (p, if p = None then s1\<lparr>jmem_heap_limit := l\<rparr>
                    else jmem_heap_stat_alloc cfg sz (s1\<lparr>jmem_heap_limit := l\<rparr>))"
    by blast
  let ?s' = "if p = None then s1\<lparr>jmem_heap_limit := l\<rparr>
                    else jmem_heap_stat_alloc cfg sz (s1\<lparr>jmem_heap_limit := l\<rparr>)"
  have "segments ?s' = segments s1" "jmem_heap_blocks_size ?s' = jmem_heap_blocks_size s1"
    by simp_all
  with q have "?Q p ?s'" by (cases p) simp_all
  with e show ?thesis by blast
qed

lemma attribute_sum:
  assumes "block_in_segments cfg segs (unat a) (unat n)"
  shows "sum_list (map occupied_size (attribute cfg (+) (unat a) (unat a + unat n) segs)) =
           sum_list (map occupied_size segs) + n"
    "sum_list (map occupied_size (attribute cfg (-) (unat a) (unat a + unat n) segs)) =
           sum_list (map occupied_size segs) - n"
proof -
  from assms have le: "unat a + unat n \<le> unat (SEG_SEGMENT_SIZE cfg) * length segs"
    by (simp add: block_in_segments_def)
  from attribute_sum_plus[of "unat a" "unat a + unat n" cfg segs] le
  show "sum_list (map occupied_size (attribute cfg (+) (unat a) (unat a + unat n) segs)) =
           sum_list (map occupied_size segs) + n" by simp
  from attribute_sum_minus[of "unat a" "unat a + unat n" cfg segs] le
  show "sum_list (map occupied_size (attribute cfg (-) (unat a) (unat a + unat n) segs)) =
           sum_list (map occupied_size segs) - n" by simp
qed

section \<open>The claims\<close>

text \<open>
  C4. The allocation fast path is taken exactly when the aligned request equals the
  alignment granule and the free list is not empty. It takes the first free region
  and returns its address: a region of exactly one granule is unlinked from the list
  (\<open>first.next_offset\<close> becomes its successor, no header is written), a larger one is
  shrunk in place, its header moved one granule forward with the size reduced by one
  granule and the same \<open>next_offset\<close>. In every other case the result is the one of
  the slow path: none when the slow path gives none, and its pointer and free list
  otherwise. The call returns under the conditions that the code leaves to its
  callers: the desired limit is not 0 and the blocks size does not overflow, so that
  the limit loop ends, and on the segmented heap the first region lies in a segment of
  the table.
\<close>

theorem C4_fast_path:
  assumes D: "CONFIG_MEM_HEAP_DESIRED_LIMIT cfg \<noteq> 0"
    and b: "unat (jmem_heap_blocks_size s) + unat (aligned cfg sz) +
            unat (CONFIG_MEM_HEAP_DESIRED_LIMIT cfg) < 2 ^ 32"
    and seg: "JMEM_SEGMENTED_HEAP cfg \<longrightarrow>
            unat (next_offset (first s) div SEG_SEGMENT_SIZE cfg) < length (segments s)"
  shows "(aligned cfg sz = JMEM_ALIGNMENT cfg \<and> next_offset (first s) \<noteq> JMEM_HEAP_END_OF_LIST cfg \<longrightarrow>
            (\<exists>s1 s'. jmem_heap_alloc_block_internal_fast cfg small s =
                        Some (Some (AREA (next_offset (first s))), s1) \<and>
               jmem_heap_alloc_block_internal cfg sz small s =
                        Some (Some (AREA (next_offset (first s))), s') \<and>
               first s' = first s1 \<and> area s' = area s1 \<and>
               size_f (first s') = size_f (first s) \<and>
               (if size_f (area s (next_offset (first s))) = JMEM_ALIGNMENT cfg
                then next_offset (first s') = next_offset (area s (next_offset (first s))) \<and> area s' = area s
                else next_offset (first s') = next_offset (first s) + JMEM_ALIGNMENT cfg \<and>
                     area s' = (area s)(next_offset (first s) + JMEM_ALIGNMENT cfg :=
                        \<lparr>next_offset = next_offset (area s (next_offset (first s))),
                         size_f = size_f (area s (next_offset (first s))) - JMEM_ALIGNMENT cfg\<rparr>)))) \<and>
         (\<not> (aligned cfg sz = JMEM_ALIGNMENT cfg \<and> next_offset (first s) \<noteq> JMEM_HEAP_END_OF_LIST cfg) \<longrightarrow>
            (jmem_heap_alloc_block_internal_slow cfg (aligned cfg sz) small s = None \<longrightarrow>
               jmem_heap_alloc_block_internal cfg sz small s = None) \<and>
            (\<forall>p s1. jmem_heap_alloc_block_internal_slow cfg (aligned cfg sz) small s = Some (p, s1) \<longrightarrow>
               (\<exists>s'. jmem_heap_alloc_block_internal cfg sz small s = Some (p, s') \<and>
                     first s' = first s1 \<and> area s' = area s1)))"
proof (intro conjI impI allI)
  assume c: "aligned cfg sz = JMEM_ALIGNMENT cfg \<and> next_offset (first s) \<noteq> JMEM_HEAP_END_OF_LIST cfg"
  let ?x = "next_offset (first s)"
  from fast_total[OF seg] obtain s1 where
    f: "jmem_heap_alloc_block_internal_fast cfg small s = Some (Some (AREA ?x), s1)" by blast
  from fast_blocks[OF f] have "jmem_heap_blocks_size s1 = jmem_heap_blocks_size s + aligned cfg sz"
    using c by simp
  then have "unat (jmem_heap_blocks_size s1) \<le> unat (jmem_heap_blocks_size s) + unat (aligned cfg sz)"
    using b by (simp add: unat_add_lem[THEN iffD1])
  with b have b1: "unat (jmem_heap_blocks_size s1) + unat (CONFIG_MEM_HEAP_DESIRED_LIMIT cfg) < 2 ^ 32"
    by simp
  from c f have "(if aligned cfg sz = JMEM_ALIGNMENT cfg \<and> next_offset (first s) \<noteq> JMEM_HEAP_END_OF_LIST cfg
            then jmem_heap_alloc_block_internal_fast cfg small s
            else jmem_heap_alloc_block_internal_slow cfg (aligned cfg sz) small s) = Some (Some (AREA ?x), s1)"
    by simp
  from alloc_after_path[OF D b1 this] obtain l where
    a: "jmem_heap_alloc_block_internal cfg sz small s =
          Some (Some (AREA ?x), jmem_heap_stat_alloc cfg sz (s1\<lparr>jmem_heap_limit := l\<rparr>))"
    by auto
  let ?s' = "jmem_heap_stat_alloc cfg sz (s1\<lparr>jmem_heap_limit := l\<rparr>)"
  have fr: "first ?s' = first s1" "area ?s' = area s1" by simp_all
  from fast_effect[OF f] fr f a
  show "\<exists>s1 s'. jmem_heap_alloc_block_internal_fast cfg small s = Some (Some (AREA ?x), s1) \<and>
               jmem_heap_alloc_block_internal cfg sz small s = Some (Some (AREA ?x), s') \<and>
               first s' = first s1 \<and> area s' = area s1 \<and>
               size_f (first s') = size_f (first s) \<and>
               (if size_f (area s ?x) = JMEM_ALIGNMENT cfg
                then next_offset (first s') = next_offset (area s ?x) \<and> area s' = area s
                else next_offset (first s') = ?x + JMEM_ALIGNMENT cfg \<and>
                     area s' = (area s)(?x + JMEM_ALIGNMENT cfg :=
                        \<lparr>next_offset = next_offset (area s ?x),
                         size_f = size_f (area s ?x) - JMEM_ALIGNMENT cfg\<rparr>))"
    by (intro exI[of _ s1] exI[of _ ?s']) simp
next
  assume c: "\<not> (aligned cfg sz = JMEM_ALIGNMENT cfg \<and> next_offset (first s) \<noteq> JMEM_HEAP_END_OF_LIST cfg)"
    and n: "jmem_heap_alloc_block_internal_slow cfg (aligned cfg sz) small s = None"
  show "jmem_heap_alloc_block_internal cfg sz small s = None"
    unfolding jmem_heap_alloc_block_internal_def Let_def if_not_P[OF c] n by simp
next
  fix p s1
  assume c: "\<not> (aligned cfg sz = JMEM_ALIGNMENT cfg \<and> next_offset (first s) \<noteq> JMEM_HEAP_END_OF_LIST cfg)"
    and sl: "jmem_heap_alloc_block_internal_slow cfg (aligned cfg sz) small s = Some (p, s1)"
  from slow_loop_blocks[of cfg "aligned cfg sz" "next_offset (first s)" FIRST s "(p, s1)"] sl
  have "jmem_heap_blocks_size s1 = jmem_heap_blocks_size s \<or>
        jmem_heap_blocks_size s1 = jmem_heap_blocks_size s + aligned cfg sz"
    by (auto simp: jmem_heap_alloc_block_internal_slow_def split: if_splits)
  then have "unat (jmem_heap_blocks_size s1) \<le> unat (jmem_heap_blocks_size s) + unat (aligned cfg sz)"
    using b by (auto simp: unat_add_lem[THEN iffD1])
  with b have b1: "unat (jmem_heap_blocks_size s1) + unat (CONFIG_MEM_HEAP_DESIRED_LIMIT cfg) < 2 ^ 32"
    by simp
  have "(if aligned cfg sz = JMEM_ALIGNMENT cfg \<and> next_offset (first s) \<noteq> JMEM_HEAP_END_OF_LIST cfg
            then jmem_heap_alloc_block_internal_fast cfg small s
            else jmem_heap_alloc_block_internal_slow cfg (aligned cfg sz) small s) = Some (p, s1)"
    unfolding if_not_P[OF c] by (rule sl)
  from alloc_after_path[OF D b1 this] obtain l where
    a: "jmem_heap_alloc_block_internal cfg sz small s =
          Some (p, if p = None then s1\<lparr>jmem_heap_limit := l\<rparr>
                    else jmem_heap_stat_alloc cfg sz (s1\<lparr>jmem_heap_limit := l\<rparr>))"
    by auto
  then show "\<exists>s'. jmem_heap_alloc_block_internal cfg sz small s = Some (p, s') \<and>
                     first s' = first s1 \<and> area s' = area s1"
    by (cases "p = None") simp_all
qed

theorem C4_fast_path_witness:
  "(\<exists>s'. jmem_heap_alloc_block_internal cfg_static 8 False heap_static = Some (Some (AREA 0), s') \<and>
          next_offset (first s') = 8 \<and> area s' = (area heap_static)(8 := \<lparr>next_offset = 0xFFFFFFFF, size_f = 248\<rparr>)) \<and>
   (\<exists>s'. jmem_heap_alloc_block_internal cfg_static 8 False heap_one_granule = Some (Some (AREA 0), s') \<and>
          next_offset (first s') = 0xFFFFFFFF \<and> area s' = area heap_one_granule) \<and>
   (\<exists>p s1 s'. jmem_heap_alloc_block_internal_slow cfg_static 16 False heap_static = Some (p, s1) \<and>
          jmem_heap_alloc_block_internal cfg_static 16 False heap_static = Some (p, s') \<and>
          first s' = first s1 \<and> area s' = area s1)"
proof -
  have c: "aligned cfg_static 8 = 8" "aligned cfg_static 16 = 16"
    "JMEM_HEAP_END_OF_LIST cfg_static = 0xFFFFFFFF" "JMEM_ALIGNMENT cfg_static = 8"
    "CONFIG_MEM_HEAP_DESIRED_LIMIT cfg_static = 64" "\<not> JMEM_SEGMENTED_HEAP cfg_static"
    by code_simp+
  have h: "first heap_static = \<lparr>next_offset = 0, size_f = 0\<rparr>"
    "area heap_static 0 = \<lparr>next_offset = 0xFFFFFFFF, size_f = 256\<rparr>"
    "jmem_heap_blocks_size heap_static = 0"
    by code_simp+
  have g: "first heap_one_granule = \<lparr>next_offset = 0, size_f = 0\<rparr>"
    "area heap_one_granule 0 = \<lparr>next_offset = 0xFFFFFFFF, size_f = 8\<rparr>"
    "jmem_heap_blocks_size heap_one_granule = 248"
    by code_simp+
  have "jmem_heap_alloc_block_internal_slow cfg_static 16 False heap_static \<noteq> None"
    by code_simp
  then obtain p s1 where sl: "jmem_heap_alloc_block_internal_slow cfg_static 16 False heap_static = Some (p, s1)"
    by auto
  from C4_fast_path[where cfg = cfg_static and s = heap_static and sz = 8 and small = False] c h
  have 1: "\<exists>s'. jmem_heap_alloc_block_internal cfg_static 8 False heap_static = Some (Some (AREA 0), s') \<and>
          next_offset (first s') = 8 \<and> area s' = (area heap_static)(8 := \<lparr>next_offset = 0xFFFFFFFF, size_f = 248\<rparr>)"
    by auto
  from C4_fast_path[where cfg = cfg_static and s = heap_one_granule and sz = 8 and small = False] c g
  have 2: "\<exists>s'. jmem_heap_alloc_block_internal cfg_static 8 False heap_one_granule = Some (Some (AREA 0), s') \<and>
          next_offset (first s') = 0xFFFFFFFF \<and> area s' = area heap_one_granule"
    by auto
  from C4_fast_path[where cfg = cfg_static and s = heap_static and sz = 16 and small = False] c h sl
  have 3: "\<exists>s'. jmem_heap_alloc_block_internal cfg_static 16 False heap_static = Some (p, s') \<and>
          first s' = first s1 \<and> area s' = area s1"
    by auto
  from 1 2 3 sl show ?thesis by blast
qed




text \<open>
  C7. On a successful allocation the statistics are to grow by the aligned size and by
  the waste \<open>aligned - requested\<close>, for the size the caller passed to the public entry
  point. The code does not do that: \<^verbatim>\<open>jmem_heap_gc_and_alloc_block\<close> aligns the size
  before it calls \<^verbatim>\<open>jmem_heap_alloc_block_internal\<close>, so \<^verbatim>\<open>jmem_heap_stat_alloc\<close> sees
  the aligned size and adds no waste. For \<^verbatim>\<open>alloc(5)\<close> on the fresh heap the waste stays
  0, where the claim says 3.
\<close>

theorem C7_waste_not_counted:
  "map_option (\<lambda>(p, s', tr). (p, waste_bytes (jmem_heap_stats s'), allocated_bytes (jmem_heap_stats s')))
     (returned (jmem_heap_alloc_block cfg_static ext_none 5 heap_static)) = Some (Some (AREA 0), 0, 8) \<and>
   waste_bytes (jmem_heap_stats heap_static) = 0 \<and> aligned cfg_static 5 - 5 = 3"
  by code_simp

text \<open>
  C9 (amended). \<^verbatim>\<open>free(ptr, 0)\<close> is not a no-op. With assertions on, the call stops at
  \<^verbatim>\<open>JERRY_ASSERT(size > 0)\<close>. With \<^verbatim>\<open>JERRY_NDEBUG\<close>, a call that returns leaves
  \<open>jmem_heap_blocks_size\<close> and the occupancy of every segment as they were, and
  decrements \<open>jmem_heap_allocated_blocks_count\<close>; the free list, the skip pointer and
  the heap limit are not promised to stay.
\<close>

theorem C9_free_zero:
  "(\<not> JERRY_NDEBUG cfg \<longrightarrow>
      jmem_heap_free_block_internal cfg ptr 0 small s = Some (Terminates ASSERTION_FAILED)) \<and>
   (JERRY_NDEBUG cfg \<longrightarrow>
      (\<forall>s'. jmem_heap_free_block_internal cfg ptr 0 small s = Some (Returns s') \<longrightarrow>
         jmem_heap_blocks_size s' = jmem_heap_blocks_size s \<and> segments s' = segments s \<and>
         jmem_heap_allocated_blocks_count s' = jmem_heap_allocated_blocks_count s - 1))"
proof (intro conjI impI allI)
  assume "\<not> JERRY_NDEBUG cfg"
  then show "jmem_heap_free_block_internal cfg ptr 0 small s = Some (Terminates ASSERTION_FAILED)"
    by (simp add: jmem_heap_free_block_internal_def)
next
  fix s'
  assume "JERRY_NDEBUG cfg" and r: "jmem_heap_free_block_internal cfg ptr 0 small s = Some (Returns s')"
  then have b: "free_body cfg ptr 0 s = Some s'"
    by (auto simp: jmem_heap_free_block_internal_def)
  from free_body_counters[OF b] obtain s3 where
    f: "jmem_heap_blocks_size s' = jmem_heap_blocks_size s - aligned cfg 0"
      "jmem_heap_allocated_blocks_count s' = jmem_heap_allocated_blocks_count s - 1"
      "segments s3 = segments s"
      "segment_occupancy cfg (-) ptr (aligned cfg 0) s3 = Some (s3\<lparr>segments := segments s'\<rparr>)"
    by auto
  from f(4) have "s3 = s3\<lparr>segments := segments s'\<rparr>"
    by (simp add: aligned_zero segment_occupancy_zero)
  then have "segments s3 = segments (s3\<lparr>segments := segments s'\<rparr>)"
    by simp
  then have "segments s' = segments s3" by simp
  with f show "jmem_heap_blocks_size s' = jmem_heap_blocks_size s" "segments s' = segments s"
    "jmem_heap_allocated_blocks_count s' = jmem_heap_allocated_blocks_count s - 1"
    by (simp_all add: aligned_zero)
qed

theorem C9_free_zero_witness:
  "jmem_heap_free_block_internal cfg_static 16 0 False heap_two_blocks = Some (Terminates ASSERTION_FAILED) \<and>
   (\<exists>s'. jmem_heap_free_block_internal (cfg_static\<lparr>JERRY_NDEBUG := True\<rparr>) 16 0 False heap_two_blocks = Some (Returns s') \<and>
      jmem_heap_blocks_size s' = jmem_heap_blocks_size heap_two_blocks \<and>
      jmem_heap_allocated_blocks_count s' = jmem_heap_allocated_blocks_count heap_two_blocks - 1)"
proof -
  have "returned (jmem_heap_free_block_internal (cfg_static\<lparr>JERRY_NDEBUG := True\<rparr>) 16 0 False heap_two_blocks) \<noteq> None"
    by code_simp
  then obtain s' where f: "jmem_heap_free_block_internal (cfg_static\<lparr>JERRY_NDEBUG := True\<rparr>) 16 0 False heap_two_blocks = Some (Returns s')"
    by (auto simp: returned_def split: option.splits outcome.splits)
  have n: "\<not> JERRY_NDEBUG cfg_static" "JERRY_NDEBUG (cfg_static\<lparr>JERRY_NDEBUG := True\<rparr>)"
    by (simp_all add: cfg_static_def)
  from C9_free_zero[of cfg_static 16 False heap_two_blocks] n(1)
    C9_free_zero[of "cfg_static\<lparr>JERRY_NDEBUG := True\<rparr>" 16 False heap_two_blocks] n(2) f
  show ?thesis by blast
qed

text \<open>
  C9 as stated fails on the heap with blocks at 0 and 16: \<^verbatim>\<open>free(16, 0)\<close> ends in the
  assertion, and without assertions it links a header at 16 (\<open>first.next_offset\<close> goes
  from 32 to 16) and takes the block count from 2 to 1.
\<close>

theorem C9_counterexample:
  "jmem_heap_free_block cfg_static 16 0 heap_two_blocks = Some (Terminates ASSERTION_FAILED) \<and>
   map_option (\<lambda>s. (next_offset (first s), jmem_heap_allocated_blocks_count s))
     (returned (jmem_heap_free_block (cfg_static\<lparr>JERRY_NDEBUG := True\<rparr>) 16 0 heap_two_blocks)) = Some (16, 1) \<and>
   next_offset (first heap_two_blocks) = 32 \<and> jmem_heap_allocated_blocks_count heap_two_blocks = 2"
  by code_simp

text \<open>
  C10 (amended). When the slow path is taken and no region of the free list holds the
  aligned size, the internal allocation returns \<^verbatim>\<open>NULL\<close> and leaves the free list
  (\<open>first\<close> and every header of the area), the skip pointer, the blocks size, the
  block count and every segment's occupancy as they were. What may differ is the
  iteration counter of the statistics (one visit per region) and the heap limit, which
  the loop after the walk raises when it does not exceed the blocks size.
\<close>

theorem C10_failed_alloc:
  assumes "free_list cfg s xs" and "no_fit s (aligned cfg sz) xs"
    and "aligned cfg sz = JMEM_ALIGNMENT cfg \<longrightarrow> xs = []"
    and "CONFIG_MEM_HEAP_DESIRED_LIMIT cfg \<noteq> 0"
    and "unat (jmem_heap_blocks_size s) + unat (CONFIG_MEM_HEAP_DESIRED_LIMIT cfg) < 2 ^ 32"
  shows "\<exists>l. jmem_heap_alloc_block_internal cfg sz small s =
              Some (None, s\<lparr>jmem_heap_limit := l,
                             jmem_heap_stats := (jmem_heap_stats s)\<lparr>alloc_iter_count :=
                               alloc_iter_count (jmem_heap_stats s) + of_nat (length xs)\<rparr>\<rparr>) \<and>
             jmem_heap_limit s \<le> l \<and>
             (jmem_heap_blocks_size s < jmem_heap_limit s \<longrightarrow> l = jmem_heap_limit s)"
  using failed_alloc_frame[OF assms] .

theorem C10_failed_alloc_witness:
  "\<exists>l. jmem_heap_alloc_block_internal cfg_static 512 False heap_static =
          Some (None, heap_static\<lparr>jmem_heap_limit := l,
                  jmem_heap_stats := (jmem_heap_stats heap_static)\<lparr>alloc_iter_count :=
                     alloc_iter_count (jmem_heap_stats heap_static) + 1\<rparr>\<rparr>) \<and>
        l = jmem_heap_limit heap_static"
proof -
  have h: "free_list cfg_static heap_static [0]" "no_fit heap_static (aligned cfg_static 512) [0]"
    "aligned cfg_static 512 \<noteq> JMEM_ALIGNMENT cfg_static"
    "CONFIG_MEM_HEAP_DESIRED_LIMIT cfg_static = 64"
    "jmem_heap_blocks_size heap_static = 0"
    "jmem_heap_blocks_size heap_static < jmem_heap_limit heap_static"
    by code_simp+
  from C10_failed_alloc[where cfg = cfg_static and s = heap_static and xs = "[0]" and sz = 512
      and small = False, OF h(1,2)] h(3-)
  show ?thesis by auto
qed

text \<open>
  C10 as stated fails: a failed allocation can change more than statistics. On the
  emptied heap (blocks size 0, limit 0) the request for 512 bytes fails and leaves the
  limit at 64.
\<close>

theorem C10_counterexample:
  "map_option (\<lambda>(p, s'). (p, jmem_heap_limit s'))
     (jmem_heap_alloc_block_internal cfg_static 512 False heap_emptied) = Some (None, 64) \<and>
   jmem_heap_limit heap_emptied = 0"
  by code_simp




text \<open>
  C3. After every public allocation and free the skip pointer is to be \<^verbatim>\<open>&first\<close> or a
  node of the free list, also when the operation empties the list or removes the node
  the skip pointer referred to. The fast path misses that case: when it unlinks the
  last region and the skip pointer referred to it, the skip pointer becomes the
  decompressed end-of-list marker. On the static heap whose only free region is the
  granule at offset 0, with the skip pointer on it, \<^verbatim>\<open>alloc(8)\<close> returns offset 0, leaves
  the list empty and the skip pointer at \<^verbatim>\<open>area + 0xFFFFFFFF\<close>.
\<close>

theorem C3_skip_pointer_dangles:
  "map_option (\<lambda>(p, s', tr). (p, jmem_heap_list_skip_p s', next_offset (first s')))
     (returned (jmem_heap_alloc_block cfg_static ext_none 8 heap_one_granule)) =
     Some (Some (AREA 0), AREA 0xFFFFFFFF, 0xFFFFFFFF) \<and>
   JMEM_HEAP_END_OF_LIST cfg_static = 0xFFFFFFFF \<and>
   jmem_heap_list_skip_p heap_one_granule = AREA 0 \<and>
   first heap_one_granule = \<lparr>next_offset = 0, size_f = 0\<rparr> \<and>
   area heap_one_granule 0 = \<lparr>next_offset = 0xFFFFFFFF, size_f = 8\<rparr>"
  by code_simp




text \<open>
  C2. On the segmented heap, an allocation and a free return and keep the sum of
  \<open>occupied_size\<close> over the segments equal to \<open>jmem_heap_blocks_size\<close>. The state that
  the allocation returns has the segment table of the state given, with every segment
  that the block returned touches raised by the number of bytes of the block that lie
  in it (\<open>attribute\<close> with \<open>+\<close>, for the block at the address returned, of the aligned
  size); the state that the free returns has it lowered so, for the block freed
  (\<open>attribute\<close> with \<open>-\<close>). An allocation that returns \<^verbatim>\<open>NULL\<close> leaves the table. The walk
  is the same on both paths, and the numbers it books add up to the aligned size of the
  block. The free regions are aligned, not empty and lie in the segments, and so does
  the block to free; the list is a list and the skip pointer is \<^verbatim>\<open>&first\<close> or a node of
  it; the sizes are as the debug build asserts and do not overflow.
\<close>

theorem C2_segment_occupancy:
  assumes seg: "JMEM_SEGMENTED_HEAP cfg" and ok: "segments_ok cfg (segments s)"
    and sum: "segments_sum s = jmem_heap_blocks_size s"
    and D: "CONFIG_MEM_HEAP_DESIRED_LIMIT cfg \<noteq> 0"
  shows "(\<forall>f a n. block_in_segments cfg (segments s) a n \<and> 0 < n \<longrightarrow>
            segment_walk cfg f (of_nat (a + n - unat (JMEM_ALIGNMENT cfg))) (of_nat n) (of_nat a) (segments s) =
              Some (attribute cfg f a (a + n) (segments s)) \<and>
            sum_list (map (isect (unat (SEG_SEGMENT_SIZE cfg)) a (a + n)) [0..<length (segments s)]) = n) \<and>
         (\<forall>xs. free_list cfg s xs \<and>
            (\<forall>x\<in>set xs. block_in_segments cfg (segments s) (unat x) (unat (size_f (area s x))) \<and>
                          0 < unat (size_f (area s x))) \<and>
            unat (jmem_heap_blocks_size s) + unat (aligned cfg sz) +
              unat (CONFIG_MEM_HEAP_DESIRED_LIMIT cfg) < 2 ^ 32 \<longrightarrow>
            (\<exists>p s'. jmem_heap_alloc_block_internal cfg sz small s = Some (p, s') \<and>
               (case p of
                  None \<Rightarrow> segments s' = segments s \<and> jmem_heap_blocks_size s' = jmem_heap_blocks_size s
                | Some q \<Rightarrow>
                   (\<exists>a\<in>set xs. q = AREA a \<and>
                      block_in_segments cfg (segments s) (unat a) (unat (aligned cfg sz)) \<and>
                      segments s' = attribute cfg (+) (unat a) (unat a + unat (aligned cfg sz)) (segments s)) \<and>
                   jmem_heap_blocks_size s' = jmem_heap_blocks_size s + aligned cfg sz) \<and>
               segments_sum s' = jmem_heap_blocks_size s')) \<and>
         (\<forall>xs. free_list cfg s xs \<and>
            (jmem_heap_list_skip_p s = FIRST \<or> (\<exists>k\<in>set xs. jmem_heap_list_skip_p s = AREA k)) \<and>
            ptr \<le> JMEM_HEAP_END_OF_LIST cfg \<and>
            block_in_segments cfg (segments s) (unat ptr) (unat (aligned cfg sz)) \<and>
            sz \<noteq> 0 \<and> aligned cfg sz \<le> jmem_heap_blocks_size s \<and>
            jmem_heap_blocks_size s \<le> jmem_heap_limit s \<and>
            unat (jmem_heap_blocks_size s) + unat (CONFIG_MEM_HEAP_DESIRED_LIMIT cfg) < 2 ^ 32 \<longrightarrow>
            (\<exists>s'. jmem_heap_free_block_internal cfg ptr sz small s = Some (Returns s') \<and>
               segments s' = attribute cfg (-) (unat ptr) (unat ptr + unat (aligned cfg sz)) (segments s) \<and>
               jmem_heap_blocks_size s' = jmem_heap_blocks_size s - aligned cfg sz \<and>
               segments_sum s' = jmem_heap_blocks_size s'))"
proof (intro conjI allI impI)
  fix f a n
  assume h: "block_in_segments cfg (segments s) a n \<and> 0 < n"
  then have "segment_walk cfg f (of_nat (a + n - unat (JMEM_ALIGNMENT cfg))) (of_nat (a + n - a)) (of_nat a) (segments s) =
              Some (attribute cfg f a (a + n) (segments s))"
    by (intro segment_walk_attribute[OF ok]) (simp_all add: block_in_segments_def)
  then show "segment_walk cfg f (of_nat (a + n - unat (JMEM_ALIGNMENT cfg))) (of_nat n) (of_nat a) (segments s) =
              Some (attribute cfg f a (a + n) (segments s))"
    by simp
  from h have "a + n \<le> unat (SEG_SEGMENT_SIZE cfg) * length (segments s)"
    by (simp add: block_in_segments_def)
  from isect_total[OF _ this, of a] show
    "sum_list (map (isect (unat (SEG_SEGMENT_SIZE cfg)) a (a + n)) [0..<length (segments s)]) = n"
    by simp
next
  fix xs
  let ?n = "aligned cfg sz"
  assume h: "free_list cfg s xs \<and>
            (\<forall>x\<in>set xs. block_in_segments cfg (segments s) (unat x) (unat (size_f (area s x))) \<and>
                          0 < unat (size_f (area s x))) \<and>
            unat (jmem_heap_blocks_size s) + unat ?n + unat (CONFIG_MEM_HEAP_DESIRED_LIMIT cfg) < 2 ^ 32"
  then have fl: "free_list cfg s xs"
    and blk: "\<forall>x\<in>set xs. block_in_segments cfg (segments s) (unat x) (unat (size_f (area s x))) \<and>
                          0 < unat (size_f (area s x))"
    and b: "unat (jmem_heap_blocks_size s) + unat ?n + unat (CONFIG_MEM_HEAP_DESIRED_LIMIT cfg) < 2 ^ 32"
    by simp_all
  let ?Q = "\<lambda>p s'. (case p of
                  None \<Rightarrow> segments s' = segments s \<and> jmem_heap_blocks_size s' = jmem_heap_blocks_size s
                | Some q \<Rightarrow>
                   (\<exists>a\<in>set xs. q = AREA a \<and>
                      block_in_segments cfg (segments s) (unat a) (unat ?n) \<and>
                      segments s' = attribute cfg (+) (unat a) (unat a + unat ?n) (segments s)) \<and>
                   jmem_heap_blocks_size s' = jmem_heap_blocks_size s + ?n)"
  from alloc_segments[OF seg ok D b fl blk, of small] obtain p s' where
    a: "jmem_heap_alloc_block_internal cfg sz small s = Some (p, s')" and q: "?Q p s'"
    by blast
  have "segments_sum s' = jmem_heap_blocks_size s'"
  proof (cases p)
    case None
    with q sum show ?thesis by (simp add: segments_sum_def)
  next
    case (Some r)
    with q have q': "(\<exists>a\<in>set xs. r = AREA a \<and>
                      block_in_segments cfg (segments s) (unat a) (unat ?n) \<and>
                      segments s' = attribute cfg (+) (unat a) (unat a + unat ?n) (segments s)) \<and>
                   jmem_heap_blocks_size s' = jmem_heap_blocks_size s + ?n"
      by simp
    then have bs: "jmem_heap_blocks_size s' = jmem_heap_blocks_size s + ?n" by simp
    from q' obtain x :: uint32_t where bx: "block_in_segments cfg (segments s) (unat x) (unat ?n)"
      and e: "segments s' = attribute cfg (+) (unat x) (unat x + unat ?n) (segments s)"
      by blast
    from attribute_sum(1)[OF bx] e bs sum show ?thesis by (simp add: segments_sum_def)
  qed
  with a q show "\<exists>p s'. jmem_heap_alloc_block_internal cfg sz small s = Some (p, s') \<and> ?Q p s' \<and>
               segments_sum s' = jmem_heap_blocks_size s'"
    by blast
next
  fix xs
  let ?n = "aligned cfg sz"
  let ?D = "CONFIG_MEM_HEAP_DESIRED_LIMIT cfg"
  assume h: "free_list cfg s xs \<and>
            (jmem_heap_list_skip_p s = FIRST \<or> (\<exists>k\<in>set xs. jmem_heap_list_skip_p s = AREA k)) \<and>
            ptr \<le> JMEM_HEAP_END_OF_LIST cfg \<and>
            block_in_segments cfg (segments s) (unat ptr) (unat ?n) \<and>
            sz \<noteq> 0 \<and> ?n \<le> jmem_heap_blocks_size s \<and>
            jmem_heap_blocks_size s \<le> jmem_heap_limit s \<and>
            unat (jmem_heap_blocks_size s) + unat ?D < 2 ^ 32"
  then have fl: "free_list cfg s xs"
    and sk: "jmem_heap_list_skip_p s = FIRST \<or> (\<exists>k\<in>set xs. jmem_heap_list_skip_p s = AREA k)"
    and le: "ptr \<le> JMEM_HEAP_END_OF_LIST cfg"
    and bp: "block_in_segments cfg (segments s) (unat ptr) (unat ?n)"
    and nz: "sz \<noteq> 0" and nb: "?n \<le> jmem_heap_blocks_size s"
    and bl: "jmem_heap_blocks_size s \<le> jmem_heap_limit s"
    and b: "unat (jmem_heap_blocks_size s) + unat ?D < 2 ^ 32"
    by simp_all
  from nb have "unat (jmem_heap_blocks_size s - ?n) \<le> unat (jmem_heap_blocks_size s)"
    by (simp add: unat_sub)
  with b have b': "unat (jmem_heap_blocks_size s - ?n) + unat ?D < 2 ^ 32" by linarith
  from ok bp have sg: "JMEM_SEGMENTED_HEAP cfg \<longrightarrow> segments_ok cfg (segments s) \<and>
               block_in_segments cfg (segments s) (unat ptr) (unat ?n)" by simp
  from free_body_total[OF fl sk le sg D b'] obtain s' where fb: "free_body cfg ptr sz s = Some s'" ..
  from nz have "0 < sz" by (simp add: word_greater_zero_iff)
  with seg bl fb have r: "jmem_heap_free_block_internal cfg ptr sz small s = Some (Returns s')"
    by (simp add: jmem_heap_free_block_internal_def jmem_is_heap_pointer_def)
  from free_body_counters[OF fb] obtain s3 where
    f: "jmem_heap_blocks_size s' = jmem_heap_blocks_size s - ?n"
      "segments s3 = segments s"
      "segment_occupancy cfg (-) ptr ?n s3 = Some (s3\<lparr>segments := segments s'\<rparr>)"
    by auto
  from segment_occupancy_attribute[OF seg, of s3 ptr ?n "(-)"] ok bp f(2)
  have "segment_occupancy cfg (-) ptr ?n s3 =
      Some (s3\<lparr>segments := attribute cfg (-) (unat ptr) (unat ptr + unat ?n) (segments s)\<rparr>)"
    by simp
  with f(3) have "segments (s3\<lparr>segments := segments s'\<rparr>) =
      segments (s3\<lparr>segments := attribute cfg (-) (unat ptr) (unat ptr + unat ?n) (segments s)\<rparr>)"
    by simp
  then have e: "segments s' = attribute cfg (-) (unat ptr) (unat ptr + unat ?n) (segments s)" by simp
  from attribute_sum(2)[OF bp] e f(1) sum have "segments_sum s' = jmem_heap_blocks_size s'"
    by (simp add: segments_sum_def)
  with r e f(1) show "\<exists>s'. jmem_heap_free_block_internal cfg ptr sz small s = Some (Returns s') \<and>
               segments s' = attribute cfg (-) (unat ptr) (unat ptr + unat ?n) (segments s) \<and>
               jmem_heap_blocks_size s' = jmem_heap_blocks_size s - ?n \<and>
               segments_sum s' = jmem_heap_blocks_size s'"
    by blast
qed

theorem C2_segment_occupancy_witness:
  "(\<exists>s'. jmem_heap_alloc_block_internal cfg_segmented 8 False heap_span = Some (Some (AREA 8), s') \<and>
      map occupied_size (segments s') = [8, 0] \<and> segments_sum s' = jmem_heap_blocks_size s') \<and>
   (\<exists>s'. jmem_heap_alloc_block_internal cfg_segmented 200 False heap_span = Some (Some (AREA 8), s') \<and>
      map occupied_size (segments s') = [120, 80] \<and> segments_sum s' = jmem_heap_blocks_size s') \<and>
   (\<exists>s'. jmem_heap_free_block_internal cfg_segmented 8 200 False heap_span_used = Some (Returns s') \<and>
      map occupied_size (segments s') = [0, 0] \<and> segments_sum s' = jmem_heap_blocks_size s' \<and>
      jmem_heap_blocks_size s' = 0) \<and>
   map occupied_size (segments heap_span) = [0, 0] \<and>
   map occupied_size (segments heap_span_used) = [120, 80]"
proof -
  have c: "JMEM_SEGMENTED_HEAP cfg_segmented" "JMEM_ALIGNMENT cfg_segmented = 8"
    "SEG_SEGMENT_SIZE cfg_segmented = 128" "aligned cfg_segmented 200 = 200" "aligned cfg_segmented 8 = 8"
    "CONFIG_MEM_HEAP_DESIRED_LIMIT cfg_segmented = 64" "JMEM_HEAP_END_OF_LIST cfg_segmented = 0xFFFFFFFF"
    by code_simp+
  have u: "map occupied_size (segments heap_span) = [0, 0]"
    "jmem_heap_blocks_size heap_span = 0" "free_list cfg_segmented heap_span [8]"
    "area heap_span 8 = \<lparr>next_offset = 0xFFFFFFFF, size_f = 248\<rparr>"
    by code_simp+
  have v: "map occupied_size (segments heap_span_used) = [120, 80]"
    "jmem_heap_blocks_size heap_span_used = 200" "free_list cfg_segmented heap_span_used [208]"
    "area heap_span_used 208 = \<lparr>next_offset = 0xFFFFFFFF, size_f = 48\<rparr>"
    "jmem_heap_list_skip_p heap_span_used = FIRST" "jmem_heap_limit heap_span_used = 256"
    by code_simp+
  have len: "length (segments heap_span) = 2" "length (segments heap_span_used) = 2"
    using arg_cong[OF u(1), of length] arg_cong[OF v(1), of length] by simp_all
  have ok: "segments_ok cfg_segmented (segments heap_span)" "segments_ok cfg_segmented (segments heap_span_used)"
    by (simp_all add: segments_ok_def c len)
  have sum: "segments_sum heap_span = jmem_heap_blocks_size heap_span"
    "segments_sum heap_span_used = jmem_heap_blocks_size heap_span_used"
    by (simp_all add: segments_sum_def u v)
  have D: "CONFIG_MEM_HEAP_DESIRED_LIMIT cfg_segmented \<noteq> 0" by (simp add: c)
  have b1: "\<forall>x\<in>set [8]. block_in_segments cfg_segmented (segments heap_span) (unat x)
      (unat (size_f (area heap_span x))) \<and> 0 < unat (size_f (area heap_span x))"
    by (simp add: block_in_segments_def c len u)
  have at: "map occupied_size (attribute cfg_segmented (+) 8 16 (segments heap_span)) = [8, 0]"
    "map occupied_size (attribute cfg_segmented (+) 8 208 (segments heap_span)) = [120, 80]"
    "map occupied_size (attribute cfg_segmented (-) 8 208 (segments heap_span_used)) = [0, 0]"
    by code_simp+
  have r: "map_option fst (jmem_heap_alloc_block_internal cfg_segmented 8 False heap_span) = Some (Some (AREA 8))"
    "map_option fst (jmem_heap_alloc_block_internal cfg_segmented 200 False heap_span) = Some (Some (AREA 8))"
    by code_simp+
  have n8: "unat (8 :: 32 word) = 8" "unat (200 :: 32 word) = 200" by simp_all
  note A = C2_segment_occupancy[where cfg = cfg_segmented and s = heap_span and sz = 8 and small = False,
      OF c(1) ok(1) sum(1) D]
  from A u(3) b1 c u(2) obtain p1 s1 where
    a1: "jmem_heap_alloc_block_internal cfg_segmented 8 False heap_span = Some (p1, s1)"
    and q1: "case p1 of None \<Rightarrow> segments s1 = segments heap_span \<and>
                jmem_heap_blocks_size s1 = jmem_heap_blocks_size heap_span
       | Some q \<Rightarrow> (\<exists>a\<in>set [8]. q = AREA a \<and>
            block_in_segments cfg_segmented (segments heap_span) (unat a) (unat (aligned cfg_segmented 8)) \<and>
            segments s1 = attribute cfg_segmented (+) (unat a) (unat a + unat (aligned cfg_segmented 8))
               (segments heap_span)) \<and>
          jmem_heap_blocks_size s1 = jmem_heap_blocks_size heap_span + aligned cfg_segmented 8"
    and m1: "segments_sum s1 = jmem_heap_blocks_size s1"
    by auto
  from r(1) a1 have p1: "p1 = Some (AREA 8)" by simp
  with q1 have "segments s1 = attribute cfg_segmented (+) 8 16 (segments heap_span)"
    by (simp add: c n8)
  with at(1) a1 p1 m1 have 1: "\<exists>s'. jmem_heap_alloc_block_internal cfg_segmented 8 False heap_span =
      Some (Some (AREA 8), s') \<and>
      map occupied_size (segments s') = [8, 0] \<and> segments_sum s' = jmem_heap_blocks_size s'"
    by simp
  note B = C2_segment_occupancy[where cfg = cfg_segmented and s = heap_span and sz = 200 and small = False,
      OF c(1) ok(1) sum(1) D]
  from B u(3) b1 c u(2) obtain p2 s2 where
    a2: "jmem_heap_alloc_block_internal cfg_segmented 200 False heap_span = Some (p2, s2)"
    and q2: "case p2 of None \<Rightarrow> segments s2 = segments heap_span \<and>
                jmem_heap_blocks_size s2 = jmem_heap_blocks_size heap_span
       | Some q \<Rightarrow> (\<exists>a\<in>set [8]. q = AREA a \<and>
            block_in_segments cfg_segmented (segments heap_span) (unat a) (unat (aligned cfg_segmented 200)) \<and>
            segments s2 = attribute cfg_segmented (+) (unat a) (unat a + unat (aligned cfg_segmented 200))
               (segments heap_span)) \<and>
          jmem_heap_blocks_size s2 = jmem_heap_blocks_size heap_span + aligned cfg_segmented 200"
    and m2: "segments_sum s2 = jmem_heap_blocks_size s2"
    by auto
  from r(2) a2 have p2: "p2 = Some (AREA 8)" by simp
  with q2 have "segments s2 = attribute cfg_segmented (+) 8 208 (segments heap_span)"
    by (simp add: c n8)
  with at(2) a2 p2 m2 have 2: "\<exists>s'. jmem_heap_alloc_block_internal cfg_segmented 200 False heap_span =
      Some (Some (AREA 8), s') \<and>
      map occupied_size (segments s') = [120, 80] \<and> segments_sum s' = jmem_heap_blocks_size s'"
    by simp
  have b2: "block_in_segments cfg_segmented (segments heap_span_used) (unat (8 :: 32 word))
      (unat (aligned cfg_segmented 200))"
    by (simp add: block_in_segments_def c len)
  note C = C2_segment_occupancy[where cfg = cfg_segmented and s = heap_span_used and sz = 200 and small = False and ptr = 8,
      OF c(1) ok(2) sum(2) D]
  from C v(3,5,6) b2 c v(2) obtain s3 where
    a3: "jmem_heap_free_block_internal cfg_segmented 8 200 False heap_span_used = Some (Returns s3)"
    and q3: "segments s3 = attribute cfg_segmented (-) (unat (8 :: 32 word))
               (unat (8 :: 32 word) + unat (aligned cfg_segmented 200)) (segments heap_span_used)"
      "jmem_heap_blocks_size s3 = jmem_heap_blocks_size heap_span_used - aligned cfg_segmented 200"
    and m3: "segments_sum s3 = jmem_heap_blocks_size s3"
    by auto
  from q3 have "segments s3 = attribute cfg_segmented (-) 8 208 (segments heap_span_used)"
    "jmem_heap_blocks_size s3 = 0"
    by (simp_all add: c n8 v)
  with at(3) a3 m3 have 3: "\<exists>s'. jmem_heap_free_block_internal cfg_segmented 8 200 False heap_span_used =
      Some (Returns s') \<and>
      map occupied_size (segments s') = [0, 0] \<and> segments_sum s' = jmem_heap_blocks_size s' \<and>
      jmem_heap_blocks_size s' = 0"
    by simp
  from 1 2 3 u(1) v(1) show ?thesis by blast
qed

end
